theory Spec2Isabelle
  imports Complex_Main
begin

section \<open>Errors, arrays and checked accesses\<close>

text \<open>
  The interpolation tables of \<^verbatim>\<open>Table.cpp\<close> work on C arrays of \<^verbatim>\<open>double\<close>
  indexed by \<^verbatim>\<open>int\<close>.  A \<^verbatim>\<open>double\<close> is modelled as a \<^typ>\<open>real\<close> (exact
  arithmetic), an \<^verbatim>\<open>int\<close> as an \<^typ>\<open>int\<close>, an array as a list that holds exactly
  the allocated elements.  Every C++ exception and every access outside an array is a
  value of type \<open>error\<close>.
\<close>

datatype error =
    OutOfBounds
  | RuntimeError string
  | LengthError

definition bindE :: "error + 'a \<Rightarrow> ('a \<Rightarrow> error + 'b) \<Rightarrow> error + 'b" where
  "bindE m f = (case m of Inl e \<Rightarrow> Inl e | Inr x \<Rightarrow> f x)"

definition rd :: "real list \<Rightarrow> int \<Rightarrow> error + real" where
  "rd xs i = (if 0 \<le> i \<and> i < int (length xs) then Inr (xs ! nat i) else Inl OutOfBounds)"

definition wr :: "real list \<Rightarrow> int \<Rightarrow> real \<Rightarrow> error + real list" where
  "wr xs i v = (if 0 \<le> i \<and> i < int (length xs) then Inr (xs[nat i := v]) else Inl OutOfBounds)"

section \<open>ArgVec\<close>

record ArgVec =
  av_vec :: "real list"
  av_n :: int
  av_lower_slop :: real
  av_upper_slop :: real
  av_equalSpaced :: bool
  av_da :: real
  av_lastIndex :: int

definition av_front :: "ArgVec \<Rightarrow> error + real" where
  "av_front av = rd (av_vec av) 0"

definition av_back :: "ArgVec \<Rightarrow> error + real" where
  "av_back av = rd (av_vec av) (av_n av - 1)"

definition tolerance :: real where
  "tolerance = 1 / 100"

text \<open>The loop \<^verbatim>\<open>for (int i=1; i<_n; i++)\<close> of the constructor; \<open>eq\<close> is the flag
  \<^verbatim>\<open>_equalSpaced\<close>.\<close>

function equalSpaced_loop :: "real list \<Rightarrow> int \<Rightarrow> real \<Rightarrow> int \<Rightarrow> bool \<Rightarrow> error + bool" where
  "equalSpaced_loop v n d i eq =
     (if i < n then
        bindE (rd v i) (\<lambda>vi.
        bindE (rd v 0) (\<lambda>v0.
          equalSpaced_loop v n d (i + 1)
            (if \<bar>(vi - v0) / d - of_int i\<bar> > tolerance then False else eq)))
      else Inr eq)"
  by pat_completeness auto
termination
  by (relation "measure (\<lambda>(v, n, d, i, eq). nat (n - i))") auto

declare equalSpaced_loop.simps [simp del]

definition ArgVec_new :: "real list \<Rightarrow> int \<Rightarrow> error + ArgVec" where
  "ArgVec_new v n =
     bindE (rd v (n - 1)) (\<lambda>b.
     bindE (rd v 0) (\<lambda>f.
     let d = (b - f) / of_int (n - 1) in
     bindE (equalSpaced_loop v n d 1 True) (\<lambda>eq.
     bindE (rd v 1) (\<lambda>v1.
     bindE (rd v 0) (\<lambda>v0.
     bindE (rd v (n - 1)) (\<lambda>vl.
     bindE (rd v (n - 2)) (\<lambda>vl2.
       Inr \<lparr> av_vec = v, av_n = n,
             av_lower_slop = (v1 - v0) * (1 / 1000000),
             av_upper_slop = (vl - vl2) * (1 / 1000000),
             av_equalSpaced = eq, av_da = d, av_lastIndex = 1 \<rparr>)))))))"

text \<open>\<^verbatim>\<open>while (a > _vec[i]) ++i;\<close>\<close>

function scan_up :: "real list \<Rightarrow> real \<Rightarrow> int \<Rightarrow> error + int" where
  "scan_up v a i =
     (if 0 \<le> i \<and> i < int (length v) then
        (if a > v ! nat i then scan_up v a (i + 1) else Inr i)
      else Inl OutOfBounds)"
  by pat_completeness auto
termination
  by (relation "measure (\<lambda>(v, a, i). nat (int (length v) - i))") auto

declare scan_up.simps [simp del]

text \<open>\<^verbatim>\<open>while (a < _vec[i-1]) --i;\<close>\<close>

function scan_down :: "real list \<Rightarrow> real \<Rightarrow> int \<Rightarrow> error + int" where
  "scan_down v a i =
     (if 0 \<le> i - 1 \<and> i - 1 < int (length v) then
        (if a < v ! nat (i - 1) then scan_down v a (i - 1) else Inr i)
      else Inl OutOfBounds)"
  by pat_completeness auto
termination
  by (relation "measure (\<lambda>(v, a, i). nat i)") auto

declare scan_down.simps [simp del]

text \<open>
  \<^verbatim>\<open>std::upper_bound(first, last, a)\<close> and \<^verbatim>\<open>std::lower_bound(first, last, a)\<close> of
  the C++ standard library, as the bisection over the half-open range that starts at
  index \<open>first\<close> and has \<open>len\<close> elements; the result is the index \<^verbatim>\<open>p - begin()\<close>.
\<close>

function upper_bound_loop :: "real list \<Rightarrow> int \<Rightarrow> int \<Rightarrow> real \<Rightarrow> error + int" where
  "upper_bound_loop v first len a =
     (if len > 0 then
        (let half = len div 2; middle = first + half in
         bindE (rd v middle) (\<lambda>m.
           if a < m then upper_bound_loop v first half a
           else upper_bound_loop v (middle + 1) (len - half - 1) a))
      else Inr first)"
  by pat_completeness auto
termination
  by (relation "measure (\<lambda>(v, first, len, a). nat len)") auto

declare upper_bound_loop.simps [simp del]

function lower_bound_loop :: "real list \<Rightarrow> int \<Rightarrow> int \<Rightarrow> real \<Rightarrow> error + int" where
  "lower_bound_loop v first len a =
     (if len > 0 then
        (let half = len div 2; middle = first + half in
         bindE (rd v middle) (\<lambda>m.
           if m < a then lower_bound_loop v (middle + 1) (len - half - 1) a
           else lower_bound_loop v first half a))
      else Inr first)"
  by pat_completeness auto
termination
  by (relation "measure (\<lambda>(v, first, len, a). nat len)") auto

declare lower_bound_loop.simps [simp del]

definition std_upper_bound :: "real list \<Rightarrow> int \<Rightarrow> int \<Rightarrow> real \<Rightarrow> error + int" where
  "std_upper_bound v first lst a = upper_bound_loop v first (lst - first) a"

definition std_lower_bound :: "real list \<Rightarrow> int \<Rightarrow> int \<Rightarrow> real \<Rightarrow> error + int" where
  "std_lower_bound v first lst a = lower_bound_loop v first (lst - first) a"

text \<open>
  \<^verbatim>\<open>int ArgVec::upperIndex(double a) const\<close>.  The member \<^verbatim>\<open>_lastIndex\<close> is
  \<^verbatim>\<open>mutable\<close>, so the function returns the index together with the updated object.
  The \<^verbatim>\<open>xassert\<close> and \<^verbatim>\<open>xdbg\<close> lines are compiled out (\<^verbatim>\<open>DEBUGLOGGING\<close> is not
  defined) and do not appear.
\<close>

definition upperIndex :: "ArgVec \<Rightarrow> real \<Rightarrow> error + (int \<times> ArgVec)" where
  "upperIndex av a =
     bindE (av_front av) (\<lambda>f.
     if a < f then Inr (1, av)
     else
     bindE (av_back av) (\<lambda>b.
     if a > b then Inr (av_n av - 1, av)
     else if av_equalSpaced av then
       bindE (av_front av) (\<lambda>f.
       let i = \<lceil>(a - f) / av_da av\<rceil>;
           i = (if i \<ge> av_n av then i - 1 else i);
           i = (if i = 0 then i + 1 else i) in
       bindE (scan_up (av_vec av) a i) (\<lambda>i.
       bindE (scan_down (av_vec av) a i) (\<lambda>i.
         Inr (i, av))))
     else
       (let l = av_lastIndex av in
        bindE (rd (av_vec av) (l - 1)) (\<lambda>vlm1.
        if a < vlm1 then
          bindE (rd (av_vec av) (l - 2)) (\<lambda>vlm2.
          if a \<ge> vlm2 then Inr (l - 1, av\<lparr>av_lastIndex := l - 1\<rparr>)
          else
            bindE (std_upper_bound (av_vec av) 0 (l - 1) a) (\<lambda>p.
              Inr (p, av\<lparr>av_lastIndex := p\<rparr>)))
        else
          bindE (rd (av_vec av) l) (\<lambda>vl.
          if a > vl then
            bindE (rd (av_vec av) (l + 1)) (\<lambda>vlp1.
            if a \<le> vlp1 then Inr (l + 1, av\<lparr>av_lastIndex := l + 1\<rparr>)
            else
              bindE (std_lower_bound (av_vec av) (l + 1) (av_n av) a) (\<lambda>p.
                Inr (p, av\<lparr>av_lastIndex := p\<rparr>)))
          else Inr (l, av))))))"


text \<open>
  A sequence of calls on one object: the history that leaves the hint \<^verbatim>\<open>_lastIndex\<close>
  behind (the loops of \<^verbatim>\<open>interpMany\<close> call \<^verbatim>\<open>upperIndex\<close> this way).
\<close>

fun upperIndex_calls :: "ArgVec \<Rightarrow> real list \<Rightarrow> error + (int list \<times> ArgVec)" where
  "upperIndex_calls av [] = Inr ([], av)"
| "upperIndex_calls av (a # as) =
     bindE (upperIndex av a) (\<lambda>(i, av').
     bindE (upperIndex_calls av' as) (\<lambda>(is, av'').
       Inr (i # is, av'')))"

text \<open>
  The state of an \<open>ArgVec\<close> over a strictly increasing array of at least two elements
  whose hint lies in \<open>1 .. n-1\<close>.
\<close>

definition argvec_ok :: "ArgVec \<Rightarrow> bool" where
  "argvec_ok av \<longleftrightarrow>
     sorted_wrt (<) (av_vec av) \<and> av_n av = int (length (av_vec av)) \<and> 2 \<le> av_n av \<and>
     av_da av = (av_vec av ! nat (av_n av - 1) - av_vec av ! 0) / of_int (av_n av - 1) \<and>
     1 \<le> av_lastIndex av \<and> av_lastIndex av \<le> av_n av - 1"

text \<open>
  What a client observes after a history of calls on a freshly constructed object: the
  index returned by one more call, and the hint left behind.
\<close>

definition upperIndex_after :: "real list \<Rightarrow> int \<Rightarrow> real list \<Rightarrow> real \<Rightarrow> error + int" where
  "upperIndex_after v n hist a =
     bindE (ArgVec_new v n) (\<lambda>av0.
     bindE (upperIndex_calls av0 hist) (\<lambda>(is, av).
     bindE (upperIndex av a) (\<lambda>(i, av'). Inr i)))"

definition lastIndex_after :: "real list \<Rightarrow> int \<Rightarrow> real list \<Rightarrow> error + int" where
  "lastIndex_after v n hist =
     bindE (ArgVec_new v n) (\<lambda>av0.
     bindE (upperIndex_calls av0 hist) (\<lambda>(is, av). Inr (av_lastIndex av)))"

section \<open>Table (one dimension)\<close>

text \<open>
  The enumeration \<^verbatim>\<open>Table::interpolant\<close>.  A value of the C++ type that is none of the
  five enumerators (the \<^verbatim>\<open>default:\<close> label of the constructor's \<^verbatim>\<open>switch\<close>) is
  \<open>Table_other k\<close>, \<open>k\<close> being its integer value.
\<close>

datatype interpolant =
    Table_linear | Table_floor | Table_ceil | Table_nearest | Table_spline
  | Table_other int

text \<open>The member-function pointer \<^verbatim>\<open>MemFn interpolate\<close>.\<close>

datatype MemFn =
    Fn_linearInterpolate | Fn_floorInterpolate | Fn_ceilInterpolate
  | Fn_nearestInterpolate | Fn_splineInterpolate

record TableImpl =
  t_iType :: interpolant
  t_args :: ArgVec
  t_vals :: "real list"
  t_n :: int
  t_y2 :: "real list"
  t_interpolate :: MemFn

text \<open>
  \<^verbatim>\<open>std::vector<double>(k)\<close> and \<^verbatim>\<open>resize(k)\<close> on an empty vector: the \<^verbatim>\<open>int\<close>
  argument is converted to \<^verbatim>\<open>size_t\<close>, so a negative \<open>k\<close> asks for more than
  \<^verbatim>\<open>max_size()\<close> elements and the library throws \<^verbatim>\<open>std::length_error\<close>.
\<close>

definition vector_new :: "int \<Rightarrow> error + real list" where
  "vector_new k = (if k < 0 then Inl LengthError else Inr (replicate (nat k) 0))"

text \<open>The three loops of the Thomas algorithm in \<^verbatim>\<open>setupSpline\<close> (the branch
  without \<^verbatim>\<open>USE_TMV\<close>); \<open>x\<close> is \<^verbatim>\<open>_args\<close>, \<open>y\<close> is \<^verbatim>\<open>_vals\<close>.\<close>

function spline_rhs_loop :: "real list \<Rightarrow> real list \<Rightarrow> int \<Rightarrow> int \<Rightarrow> real list \<Rightarrow> error + real list" where
  "spline_rhs_loop x y n i y2 =
     (if i \<le> n - 2 then
        bindE (rd y (i + 1)) (\<lambda>yp.
        bindE (rd y i) (\<lambda>yi.
        bindE (rd x (i + 1)) (\<lambda>xp.
        bindE (rd x i) (\<lambda>xi.
        bindE (rd y (i - 1)) (\<lambda>ym.
        bindE (rd x (i - 1)) (\<lambda>xm.
        bindE (wr y2 i (6 * ((yp - yi) / (xp - xi) - (yi - ym) / (xi - xm)))) (\<lambda>y2.
          spline_rhs_loop x y n (i + 1) y2)))))))
      else Inr y2)"
  by pat_completeness auto
termination
  by (relation "measure (\<lambda>(x, y, n, i, y2). nat (n - 1 - i))") auto

declare spline_rhs_loop.simps [simp del]

function spline_forward_loop ::
  "real list \<Rightarrow> int \<Rightarrow> int \<Rightarrow> real \<Rightarrow> real list \<Rightarrow> real list \<Rightarrow> error + (real list \<times> real list)" where
  "spline_forward_loop x n i bb c y2 =
     (if i \<le> n - 2 then
        bindE (rd y2 i) (\<lambda>y2i.
        bindE (wr y2 i (y2i / bb)) (\<lambda>y2.
        if i = n - 2 then Inr (c, y2)
        else
          bindE (rd x (i + 1)) (\<lambda>xp.
          bindE (rd x i) (\<lambda>xi.
          let a = xp - xi in
          bindE (wr c (i - 1) a) (\<lambda>c.
          bindE (rd c (i - 1)) (\<lambda>ci.
          bindE (wr c (i - 1) (ci / bb)) (\<lambda>c.
          bindE (rd x (i + 2)) (\<lambda>xpp.
          let bb = 2 * (xpp - xi) in
          bindE (rd c (i - 1)) (\<lambda>ci.
          let bb = bb - a * ci in
          bindE (rd y2 (i + 1)) (\<lambda>y2p.
          bindE (rd y2 i) (\<lambda>y2i.
          bindE (wr y2 (i + 1) (y2p - a * y2i)) (\<lambda>y2.
            spline_forward_loop x n (i + 1) bb c y2))))))))))))
      else Inr (c, y2))"
  by pat_completeness auto
termination
  by (relation "measure (\<lambda>(x, n, i, bb, c, y2). nat (n - 1 - i))") auto

declare spline_forward_loop.simps [simp del]

function spline_back_loop :: "int \<Rightarrow> real list \<Rightarrow> real list \<Rightarrow> error + real list" where
  "spline_back_loop i c y2 =
     (if i > 0 then
        bindE (rd y2 i) (\<lambda>y2i.
        bindE (rd c (i - 1)) (\<lambda>ci.
        bindE (rd y2 (i + 1)) (\<lambda>y2p.
        bindE (wr y2 i (y2i - ci * y2p)) (\<lambda>y2.
          spline_back_loop (i - 1) c y2))))
      else Inr y2)"
  by pat_completeness auto
termination
  by (relation "measure (\<lambda>(i, c, y2). nat i)") auto

declare spline_back_loop.simps [simp del]

definition setupSpline :: "TableImpl \<Rightarrow> error + TableImpl" where
  "setupSpline t =
     (let x = av_vec (t_args t); y = t_vals t; n = t_n t in
      bindE (vector_new n) (\<lambda>y2.
      bindE (wr y2 0 0) (\<lambda>y2.
      bindE (wr y2 (n - 1) 0) (\<lambda>y2.
      if n = 3 then
        bindE (rd y 2) (\<lambda>v2.
        bindE (rd y 1) (\<lambda>v1.
        bindE (rd x 2) (\<lambda>x2.
        bindE (rd x 1) (\<lambda>x1.
        bindE (rd y 0) (\<lambda>v0.
        bindE (rd x 0) (\<lambda>x0.
        bindE (wr y2 1 (3 * ((v2 - v1) / (x2 - x1) - (v1 - v0) / (x1 - x0)) / (x2 - x0))) (\<lambda>y2.
          Inr (t\<lparr>t_y2 := y2\<rparr>))))))))
      else
        bindE (vector_new (n - 3)) (\<lambda>c.
        bindE (spline_rhs_loop x y n 1 y2) (\<lambda>y2.
        bindE (rd x 2) (\<lambda>x2.
        bindE (rd x 0) (\<lambda>x0.
        let bb = 2 * (x2 - x0) in
        bindE (spline_forward_loop x n 1 bb c y2) (\<lambda>(c, y2).
        bindE (spline_back_loop (n - 3) c y2) (\<lambda>y2.
          Inr (t\<lparr>t_y2 := y2\<rparr>)))))))))))"

text \<open>\<^verbatim>\<open>TableImpl::TableImpl\<close>: the member initialisers build the \<open>ArgVec\<close> first, then
  the \<^verbatim>\<open>switch\<close> selects the formula or throws.\<close>

definition TableImpl_new :: "real list \<Rightarrow> real list \<Rightarrow> int \<Rightarrow> interpolant \<Rightarrow> error + TableImpl" where
  "TableImpl_new args vals N iT =
     bindE (ArgVec_new args N) (\<lambda>av.
     bindE (case iT of
              Table_linear \<Rightarrow> Inr Fn_linearInterpolate
            | Table_floor \<Rightarrow> Inr Fn_floorInterpolate
            | Table_ceil \<Rightarrow> Inr Fn_ceilInterpolate
            | Table_nearest \<Rightarrow> Inr Fn_nearestInterpolate
            | Table_spline \<Rightarrow> Inr Fn_splineInterpolate
            | Table_other k \<Rightarrow> Inl (RuntimeError ''invalid interpolation method'')) (\<lambda>f.
     let t = \<lparr> t_iType = iT, t_args = av, t_vals = vals, t_n = N, t_y2 = [],
               t_interpolate = f \<rparr> in
     if iT = Table_spline then setupSpline t else Inr t))"

definition linearInterpolate :: "TableImpl \<Rightarrow> real \<Rightarrow> int \<Rightarrow> error + real" where
  "linearInterpolate t a i =
     bindE (rd (av_vec (t_args t)) i) (\<lambda>xi.
     bindE (rd (av_vec (t_args t)) (i - 1)) (\<lambda>xm.
     let ax = (xi - a) / (xi - xm); bx = 1 - ax in
     bindE (rd (t_vals t) i) (\<lambda>vi.
     bindE (rd (t_vals t) (i - 1)) (\<lambda>vm.
       Inr (vi * bx + vm * ax)))))"

definition floorInterpolate :: "TableImpl \<Rightarrow> real \<Rightarrow> int \<Rightarrow> error + real" where
  "floorInterpolate t a i =
     bindE (rd (av_vec (t_args t)) i) (\<lambda>xi.
     let i = (if a = xi then i + 1 else i) in
     rd (t_vals t) (i - 1))"

definition ceilInterpolate :: "TableImpl \<Rightarrow> real \<Rightarrow> int \<Rightarrow> error + real" where
  "ceilInterpolate t a i =
     bindE (rd (av_vec (t_args t)) (i - 1)) (\<lambda>xm.
     let i = (if a = xm then i - 1 else i) in
     rd (t_vals t) i)"

definition nearestInterpolate :: "TableImpl \<Rightarrow> real \<Rightarrow> int \<Rightarrow> error + real" where
  "nearestInterpolate t a i =
     bindE (rd (av_vec (t_args t)) (i - 1)) (\<lambda>xm.
     bindE (rd (av_vec (t_args t)) i) (\<lambda>xi.
     let i = (if (a - xm) < (xi - a) then i - 1 else i) in
     rd (t_vals t) i))"

definition splineInterpolate :: "TableImpl \<Rightarrow> real \<Rightarrow> int \<Rightarrow> error + real" where
  "splineInterpolate t a i =
     bindE (rd (av_vec (t_args t)) i) (\<lambda>xi.
     bindE (rd (av_vec (t_args t)) (i - 1)) (\<lambda>xm.
     let h = xi - xm; aa = xi - a; bb = h - aa in
     bindE (rd (t_vals t) (i - 1)) (\<lambda>vm.
     bindE (rd (t_vals t) i) (\<lambda>vi.
     bindE (rd (t_y2 t) (i - 1)) (\<lambda>y2m.
     bindE (rd (t_y2 t) i) (\<lambda>y2i.
       Inr ((aa * vm + bb * vi - (1 / 6) * aa * bb * ((aa + h) * y2m + (bb + h) * y2i)) / h)))))))"

text \<open>The call \<^verbatim>\<open>(this->*interpolate)(a, i)\<close>.\<close>

definition interpolate :: "TableImpl \<Rightarrow> real \<Rightarrow> int \<Rightarrow> error + real" where
  "interpolate t a i =
     (case t_interpolate t of
        Fn_linearInterpolate \<Rightarrow> linearInterpolate t a i
      | Fn_floorInterpolate \<Rightarrow> floorInterpolate t a i
      | Fn_ceilInterpolate \<Rightarrow> ceilInterpolate t a i
      | Fn_nearestInterpolate \<Rightarrow> nearestInterpolate t a i
      | Fn_splineInterpolate \<Rightarrow> splineInterpolate t a i)"

text \<open>\<^verbatim>\<open>TableImpl::lookup\<close>; the hint of \<^verbatim>\<open>_args\<close> changes, so the table is returned
  with the value.\<close>

definition TableImpl_lookup :: "TableImpl \<Rightarrow> real \<Rightarrow> error + (real \<times> TableImpl)" where
  "TableImpl_lookup t a =
     bindE (upperIndex (t_args t) a) (\<lambda>(i, av).
     let t = t\<lparr>t_args := av\<rparr> in
     bindE (interpolate t a i) (\<lambda>val.
       Inr (val, t)))"

text \<open>\<^verbatim>\<open>Table\<close> holds a \<open>TableImpl\<close> behind \<^verbatim>\<open>_pimpl\<close>; \<^verbatim>\<open>Table::lookup\<close> forwards,
  \<^verbatim>\<open>Table::operator()\<close> returns zero outside the domain.\<close>

definition Table_new :: "real list \<Rightarrow> real list \<Rightarrow> int \<Rightarrow> interpolant \<Rightarrow> error + TableImpl" where
  "Table_new args vals N iT = TableImpl_new args vals N iT"

definition Table_argMin :: "TableImpl \<Rightarrow> error + real" where
  "Table_argMin t = av_front (t_args t)"

definition Table_argMax :: "TableImpl \<Rightarrow> error + real" where
  "Table_argMax t = av_back (t_args t)"

definition Table_lookup :: "TableImpl \<Rightarrow> real \<Rightarrow> error + (real \<times> TableImpl)" where
  "Table_lookup t a = TableImpl_lookup t a"

definition Table_call :: "TableImpl \<Rightarrow> real \<Rightarrow> error + (real \<times> TableImpl)" where
  "Table_call t a =
     bindE (Table_argMin t) (\<lambda>lo.
     if a < lo then Inr (0, t)
     else
       bindE (Table_argMax t) (\<lambda>hi.
       if a > hi then Inr (0, t) else TableImpl_lookup t a))"

text \<open>
  Quantities of the proof of \<^verbatim>\<open>setupSpline\<close>: the right-hand side of row \<open>i\<close> of the
  tridiagonal system, and the values that the variable \<^verbatim>\<open>bb\<close> and the entry
  \<^verbatim>\<open>_y2[k+1]\<close> take in iteration \<open>i = k + 1\<close> of the elimination loop.
\<close>

definition spline_rhs :: "real list \<Rightarrow> real list \<Rightarrow> nat \<Rightarrow> real" where
  "spline_rhs x y i =
     6 * ((y ! (i + 1) - y ! i) / (x ! (i + 1) - x ! i) - (y ! i - y ! (i - 1)) / (x ! i - x ! (i - 1)))"

fun thomas_pivot :: "real list \<Rightarrow> nat \<Rightarrow> real" where
  "thomas_pivot x 0 = 2 * (x ! 2 - x ! 0)"
| "thomas_pivot x (Suc k) =
     2 * (x ! (k + 3) - x ! (k + 1)) -
     (x ! (k + 2) - x ! (k + 1)) * ((x ! (k + 2) - x ! (k + 1)) / thomas_pivot x k)"

fun thomas_d :: "real list \<Rightarrow> real list \<Rightarrow> nat \<Rightarrow> real" where
  "thomas_d x y 0 = spline_rhs x y 1 / thomas_pivot x 0"
| "thomas_d x y (Suc k) =
     (spline_rhs x y (k + 2) - (x ! (k + 2) - x ! (k + 1)) * thomas_d x y k) / thomas_pivot x (Suc k)"

declare thomas_pivot.simps [simp del] thomas_d.simps [simp del]

section \<open>Table2D\<close>

text \<open>
  The enumeration \<^verbatim>\<open>Table2D::interpolant\<close>; \<open>Table2D_other k\<close> is a value outside the
  enumerators (the \<^verbatim>\<open>default:\<close> label of \<^verbatim>\<open>makeImpl\<close>).
\<close>

datatype interpolant2 =
    Table2D_floor | Table2D_ceil | Table2D_nearest | Table2D_linear | Table2D_cubic
  | Table2D_cubicConvolve | Table2D_interpolant2d
  | Table2D_other int

text \<open>
  The class \<^verbatim>\<open>InterpolantXY\<close> is declared in \<^verbatim>\<open>Interpolant.h\<close>, outside these
  sources.  The table uses three of its member functions, which are the fields of the
  record.
\<close>

record InterpolantXY =
  isExactAtNodes :: bool
  xrange :: real
  xval :: "real \<Rightarrow> real \<Rightarrow> real"

text \<open>\<^verbatim>\<open>std::numeric_limits<double>::epsilon()\<close>\<close>

definition dbl_epsilon :: real where
  "dbl_epsilon = 1 / 2 ^ 52"

text \<open>The data members of the base class \<^verbatim>\<open>T2DCRTP<T>\<close>.\<close>

record T2DCRTP =
  t2_xargs :: ArgVec
  t2_yargs :: ArgVec
  t2_vals :: "real list"
  t2_ny :: int

text \<open>The seven classes derived from \<^verbatim>\<open>T2DCRTP<T>\<close>, with their own data members.\<close>

datatype Table2DImpl =
    T2DFloor T2DCRTP
  | T2DCeil T2DCRTP
  | T2DNearest T2DCRTP
  | T2DLinear T2DCRTP
  | T2DCubic T2DCRTP "real list" "real list" "real list"
  | T2DCubicConvolution T2DCRTP
  | T2DInterpolant2D T2DCRTP int InterpolantXY

fun t2_base :: "Table2DImpl \<Rightarrow> T2DCRTP" where
  "t2_base (T2DFloor b) = b"
| "t2_base (T2DCeil b) = b"
| "t2_base (T2DNearest b) = b"
| "t2_base (T2DLinear b) = b"
| "t2_base (T2DCubic b dfdx dfdy d2fdxdy) = b"
| "t2_base (T2DCubicConvolution b) = b"
| "t2_base (T2DInterpolant2D b nx k) = b"

fun t2_with_base :: "Table2DImpl \<Rightarrow> T2DCRTP \<Rightarrow> Table2DImpl" where
  "t2_with_base (T2DFloor b) b' = T2DFloor b'"
| "t2_with_base (T2DCeil b) b' = T2DCeil b'"
| "t2_with_base (T2DNearest b) b' = T2DNearest b'"
| "t2_with_base (T2DLinear b) b' = T2DLinear b'"
| "t2_with_base (T2DCubic b dfdx dfdy d2fdxdy) b' = T2DCubic b' dfdx dfdy d2fdxdy"
| "t2_with_base (T2DCubicConvolution b) b' = T2DCubicConvolution b'"
| "t2_with_base (T2DInterpolant2D b nx k) b' = T2DInterpolant2D b' nx k"

definition T2DCRTP_new :: "real list \<Rightarrow> real list \<Rightarrow> real list \<Rightarrow> int \<Rightarrow> int \<Rightarrow> error + T2DCRTP" where
  "T2DCRTP_new xargs yargs vals Nx Ny =
     bindE (ArgVec_new xargs Nx) (\<lambda>xa.
     bindE (ArgVec_new yargs Ny) (\<lambda>ya.
       Inr \<lparr> t2_xargs = xa, t2_yargs = ya, t2_vals = vals, t2_ny = Ny \<rparr>))"

subsection \<open>The member functions interp\<close>

definition T2DFloor_interp :: "T2DCRTP \<Rightarrow> real \<Rightarrow> real \<Rightarrow> int \<Rightarrow> int \<Rightarrow> error + real" where
  "T2DFloor_interp b x y i j =
     bindE (rd (av_vec (t2_xargs b)) i) (\<lambda>xi.
     let i = (if x = xi then i + 1 else i) in
     bindE (rd (av_vec (t2_yargs b)) j) (\<lambda>yj.
     let j = (if y = yj then j + 1 else j) in
     rd (t2_vals b) ((i - 1) * t2_ny b + j - 1)))"

definition T2DCeil_interp :: "T2DCRTP \<Rightarrow> real \<Rightarrow> real \<Rightarrow> int \<Rightarrow> int \<Rightarrow> error + real" where
  "T2DCeil_interp b x y i j =
     bindE (rd (av_vec (t2_xargs b)) (i - 1)) (\<lambda>xm.
     let i = (if x = xm then i - 1 else i) in
     bindE (rd (av_vec (t2_yargs b)) (j - 1)) (\<lambda>ym.
     let j = (if y = ym then j - 1 else j) in
     rd (t2_vals b) (i * t2_ny b + j)))"

definition T2DNearest_interp :: "T2DCRTP \<Rightarrow> real \<Rightarrow> real \<Rightarrow> int \<Rightarrow> int \<Rightarrow> error + real" where
  "T2DNearest_interp b x y i j =
     bindE (rd (av_vec (t2_xargs b)) (i - 1)) (\<lambda>xm.
     bindE (rd (av_vec (t2_xargs b)) i) (\<lambda>xi.
     let i = (if (x - xm) < (xi - x) then i - 1 else i) in
     bindE (rd (av_vec (t2_yargs b)) (j - 1)) (\<lambda>ym.
     bindE (rd (av_vec (t2_yargs b)) j) (\<lambda>yj.
     let j = (if (y - ym) < (yj - y) then j - 1 else j) in
     rd (t2_vals b) (i * t2_ny b + j)))))"

definition T2DLinear_interp :: "T2DCRTP \<Rightarrow> real \<Rightarrow> real \<Rightarrow> int \<Rightarrow> int \<Rightarrow> error + real" where
  "T2DLinear_interp b x y i j =
     bindE (rd (av_vec (t2_xargs b)) i) (\<lambda>xi.
     bindE (rd (av_vec (t2_xargs b)) (i - 1)) (\<lambda>xm.
     bindE (rd (av_vec (t2_yargs b)) j) (\<lambda>yj.
     bindE (rd (av_vec (t2_yargs b)) (j - 1)) (\<lambda>ym.
     let ax = (xi - x) / (xi - xm); ay = (yj - y) / (yj - ym);
         bx = 1 - ax; by = 1 - ay in
     bindE (rd (t2_vals b) ((i - 1) * t2_ny b + j - 1)) (\<lambda>f00.
     bindE (rd (t2_vals b) (i * t2_ny b + j - 1)) (\<lambda>f10.
     bindE (rd (t2_vals b) ((i - 1) * t2_ny b + j)) (\<lambda>f01.
     bindE (rd (t2_vals b) (i * t2_ny b + j)) (\<lambda>f11.
       Inr (f00 * ax * ay + f10 * bx * ay + f01 * ax * by + f11 * bx * by)))))))))"

definition T2DCubic_oneDSpline :: "real \<Rightarrow> real \<Rightarrow> real \<Rightarrow> real \<Rightarrow> real \<Rightarrow> real" where
  "T2DCubic_oneDSpline x val0 val1 der0 der1 =
     (let a = 2 * (val0 - val1) + der0 + der1;
          b = 3 * (val1 - val0) - 2 * der0 - der1;
          c = der0;
          d = val0 in
      d + x * (c + x * (b + x * a)))"

definition T2DCubic_oneDGrad :: "real \<Rightarrow> real \<Rightarrow> real \<Rightarrow> real \<Rightarrow> real \<Rightarrow> real" where
  "T2DCubic_oneDGrad x val0 val1 der0 der1 =
     (let a = 2 * (val0 - val1) + der0 + der1;
          b = 3 * (val1 - val0) - 2 * der0 - der1;
          c = der0 in
      c + x * (2 * b + x * 3 * a))"

text \<open>The four corner reads of one grid, \<^verbatim>\<open>g[(i-1)*_ny+j-1]\<close>, \<^verbatim>\<open>g[i*_ny+j-1]\<close>,
  \<^verbatim>\<open>g[(i-1)*_ny+j]\<close> and \<^verbatim>\<open>g[i*_ny+j]\<close>.\<close>

definition corners :: "real list \<Rightarrow> int \<Rightarrow> int \<Rightarrow> int \<Rightarrow> error + (real \<times> real \<times> real \<times> real)" where
  "corners g ny i j =
     bindE (rd g ((i - 1) * ny + j - 1)) (\<lambda>g00.
     bindE (rd g (i * ny + j - 1)) (\<lambda>g10.
     bindE (rd g ((i - 1) * ny + j)) (\<lambda>g01.
     bindE (rd g (i * ny + j)) (\<lambda>g11.
       Inr (g00, g10, g01, g11)))))"

definition T2DCubic_interp ::
  "T2DCRTP \<Rightarrow> real list \<Rightarrow> real list \<Rightarrow> real list \<Rightarrow> real \<Rightarrow> real \<Rightarrow> int \<Rightarrow> int \<Rightarrow> error + real" where
  "T2DCubic_interp b dfdx dfdy d2fdxdy x y i j =
     bindE (rd (av_vec (t2_xargs b)) i) (\<lambda>xi.
     bindE (rd (av_vec (t2_xargs b)) (i - 1)) (\<lambda>xm.
     bindE (rd (av_vec (t2_yargs b)) j) (\<lambda>yj.
     bindE (rd (av_vec (t2_yargs b)) (j - 1)) (\<lambda>ym.
     let dxgrid = xi - xm; dygrid = yj - ym;
         dx = (x - xm) / dxgrid; dy = (y - ym) / dygrid in
     bindE (corners (t2_vals b) (t2_ny b) i j) (\<lambda>(f00, f10, f01, f11).
     bindE (corners dfdx (t2_ny b) i j) (\<lambda>(fx00, fx10, fx01, fx11).
     bindE (corners dfdy (t2_ny b) i j) (\<lambda>(fy00, fy10, fy01, fy11).
     bindE (corners d2fdxdy (t2_ny b) i j) (\<lambda>(fxy00, fxy10, fxy01, fxy11).
     let val0 = T2DCubic_oneDSpline dx f00 f10 (fx00 * dxgrid) (fx10 * dxgrid);
         val1 = T2DCubic_oneDSpline dx f01 f11 (fx01 * dxgrid) (fx11 * dxgrid);
         der0 = T2DCubic_oneDSpline dx fy00 fy10 (fxy00 * dxgrid) (fxy10 * dxgrid);
         der1 = T2DCubic_oneDSpline dx fy01 fy11 (fxy01 * dxgrid) (fxy11 * dxgrid) in
     Inr (T2DCubic_oneDSpline dy val0 val1 (der0 * dygrid) (der1 * dygrid))))))))))"

definition T2DCubicConvolution_oneDSpline :: "real \<Rightarrow> real \<Rightarrow> real \<Rightarrow> real \<Rightarrow> real \<Rightarrow> real" where
  "T2DCubicConvolution_oneDSpline x fm1 f0 f1 f2 =
     (let a = - fm1 + 3 * (f0 - f1) + f2;
          b = 2 * fm1 - 5 * f0 + 4 * f1 - f2;
          c = f1 - fm1;
          d = 2 * f0 in
      (1 / 2) * (d + x * (c + x * (b + x * a))))"

definition T2DCubicConvolution_oneDGrad :: "real \<Rightarrow> real \<Rightarrow> real \<Rightarrow> real \<Rightarrow> real \<Rightarrow> real" where
  "T2DCubicConvolution_oneDGrad x fm1 f0 f1 f2 =
     (let a = - fm1 + 3 * (f0 - f1) + f2;
          b = 2 * fm1 - 5 * f0 + 4 * f1 - f2;
          c = f1 - fm1 in
      (1 / 2) * (c + x * (2 * b + x * 3 * a)))"

text \<open>The four reads \<^verbatim>\<open>_vals[(i-2)*_ny+c]\<close>, \<^verbatim>\<open>_vals[(i-1)*_ny+c]\<close>,
  \<^verbatim>\<open>_vals[(i+0)*_ny+c]\<close>, \<^verbatim>\<open>_vals[(i+1)*_ny+c]\<close> along x, and the four reads
  \<^verbatim>\<open>_vals[r*_ny+j-2]\<close> .. \<^verbatim>\<open>_vals[r*_ny+j+1]\<close> along y.\<close>

definition stencil_x :: "real list \<Rightarrow> int \<Rightarrow> int \<Rightarrow> int \<Rightarrow> error + (real \<times> real \<times> real \<times> real)" where
  "stencil_x g ny i c =
     bindE (rd g ((i - 2) * ny + c)) (\<lambda>a.
     bindE (rd g ((i - 1) * ny + c)) (\<lambda>b.
     bindE (rd g ((i + 0) * ny + c)) (\<lambda>c'.
     bindE (rd g ((i + 1) * ny + c)) (\<lambda>d.
       Inr (a, b, c', d)))))"

definition stencil_y :: "real list \<Rightarrow> int \<Rightarrow> int \<Rightarrow> int \<Rightarrow> error + (real \<times> real \<times> real \<times> real)" where
  "stencil_y g ny r j =
     bindE (rd g (r * ny + j - 2)) (\<lambda>a.
     bindE (rd g (r * ny + j - 1)) (\<lambda>b.
     bindE (rd g (r * ny + j + 0)) (\<lambda>c.
     bindE (rd g (r * ny + j + 1)) (\<lambda>d.
       Inr (a, b, c, d)))))"

definition T2DCubicConvolution_interp :: "T2DCRTP \<Rightarrow> real \<Rightarrow> real \<Rightarrow> int \<Rightarrow> int \<Rightarrow> error + real" where
  "T2DCubicConvolution_interp b x y i j =
     bindE (rd (av_vec (t2_xargs b)) i) (\<lambda>xi.
     bindE (rd (av_vec (t2_xargs b)) (i - 1)) (\<lambda>xm.
     bindE (rd (av_vec (t2_yargs b)) j) (\<lambda>yj.
     bindE (rd (av_vec (t2_yargs b)) (j - 1)) (\<lambda>ym.
     let dxgrid = xi - xm; dygrid = yj - ym;
         dx = (x - xm) / dxgrid; dy = (y - ym) / dygrid in
     bindE (stencil_x (t2_vals b) (t2_ny b) i (j - 2)) (\<lambda>(a0, a1, a2, a3).
     bindE (stencil_x (t2_vals b) (t2_ny b) i (j - 1)) (\<lambda>(b0, b1, b2, b3).
     bindE (stencil_x (t2_vals b) (t2_ny b) i (j + 0)) (\<lambda>(c0, c1, c2, c3).
     bindE (stencil_x (t2_vals b) (t2_ny b) i (j + 1)) (\<lambda>(d0, d1, d2, d3).
     let valm1 = T2DCubicConvolution_oneDSpline dx a0 a1 a2 a3;
         val0 = T2DCubicConvolution_oneDSpline dx b0 b1 b2 b3;
         val1 = T2DCubicConvolution_oneDSpline dx c0 c1 c2 c3;
         val2 = T2DCubicConvolution_oneDSpline dx d0 d1 d2 d3 in
     Inr (T2DCubicConvolution_oneDSpline dy valm1 val0 val1 val2)))))))))"

text \<open>The two nested loops of \<^verbatim>\<open>T2DInterpolant2D::interp\<close>.\<close>

function interp2d_sum_x ::
  "T2DCRTP \<Rightarrow> InterpolantXY \<Rightarrow> int \<Rightarrow> int \<Rightarrow> real \<Rightarrow> real \<Rightarrow> int \<Rightarrow> int \<Rightarrow> int \<Rightarrow> real \<Rightarrow> error + real" where
  "interp2d_sum_x b k i j dx dy iy ix ixMax sm =
     (if ix \<le> ixMax then
        bindE (rd (t2_vals b) (ix * t2_ny b + iy)) (\<lambda>v.
          interp2d_sum_x b k i j dx dy iy (ix + 1) ixMax
            (sm + v * xval k (of_int (i - 1) + dx - of_int ix) (of_int (j - 1) + dy - of_int iy)))
      else Inr sm)"
  by pat_completeness auto
termination
  by (relation "measure (\<lambda>(b, k, i, j, dx, dy, iy, ix, ixMax, sm). nat (ixMax + 1 - ix))") auto

declare interp2d_sum_x.simps [simp del]

function interp2d_sum_y ::
  "T2DCRTP \<Rightarrow> InterpolantXY \<Rightarrow> int \<Rightarrow> int \<Rightarrow> real \<Rightarrow> real \<Rightarrow> int \<Rightarrow> int \<Rightarrow> int \<Rightarrow> int \<Rightarrow> real \<Rightarrow> error + real" where
  "interp2d_sum_y b k i j dx dy ixMin ixMax iy iyMax sm =
     (if iy \<le> iyMax then
        bindE (interp2d_sum_x b k i j dx dy iy ixMin ixMax sm) (\<lambda>sm.
          interp2d_sum_y b k i j dx dy ixMin ixMax (iy + 1) iyMax sm)
      else Inr sm)"
  by pat_completeness auto
termination
  by (relation "measure (\<lambda>(b, k, i, j, dx, dy, ixMin, ixMax, iy, iyMax, sm). nat (iyMax + 1 - iy))") auto

declare interp2d_sum_y.simps [simp del]

text \<open>
  The index window of the kernel along one axis, before and after clamping to the grid:
  the computation of \<^verbatim>\<open>ixMin\<close>, \<^verbatim>\<open>ixMax\<close> (with \<open>d = dx\<close>, \<open>i\<close>, \<open>n = _nx\<close>) and of
  \<^verbatim>\<open>iyMin\<close>, \<^verbatim>\<open>iyMax\<close> (with \<open>d = dy\<close>, \<open>j\<close>, \<open>n = _ny\<close>), which the source writes out twice.
\<close>

definition interp2d_window :: "InterpolantXY \<Rightarrow> real \<Rightarrow> int \<Rightarrow> int \<Rightarrow> int \<times> int" where
  "interp2d_window k d i n =
     (let (lo, hi) =
        (if isExactAtNodes k \<and> \<bar>d\<bar> < 10 * dbl_epsilon then (i - 1, i - 1)
         else (i - 1 + \<lceil>d - xrange k\<rceil>, i - 1 + \<lfloor>d + xrange k\<rfloor>)) in
      (max lo 0, min hi (n - 1)))"

definition T2DInterpolant2D_interp ::
  "T2DCRTP \<Rightarrow> int \<Rightarrow> InterpolantXY \<Rightarrow> real \<Rightarrow> real \<Rightarrow> int \<Rightarrow> int \<Rightarrow> error + real" where
  "T2DInterpolant2D_interp b nx k x y i j =
     bindE (rd (av_vec (t2_xargs b)) i) (\<lambda>xi.
     bindE (rd (av_vec (t2_xargs b)) (i - 1)) (\<lambda>xm.
     bindE (rd (av_vec (t2_yargs b)) j) (\<lambda>yj.
     bindE (rd (av_vec (t2_yargs b)) (j - 1)) (\<lambda>ym.
     let dxgrid = xi - xm; dygrid = yj - ym;
         dx = (x - xm) / dxgrid; dy = (y - ym) / dygrid;
         (ixMin, ixMax) = interp2d_window k dx i nx in
     if ixMin > ixMax then Inr 0
     else
       let (iyMin, iyMax) = interp2d_window k dy j (t2_ny b) in
       if iyMin > iyMax then Inr 0
       else interp2d_sum_y b k i j dx dy ixMin ixMax iyMin iyMax 0))))"

subsection \<open>The member functions grad\<close>

definition T2DLinear_grad :: "T2DCRTP \<Rightarrow> real \<Rightarrow> real \<Rightarrow> int \<Rightarrow> int \<Rightarrow> error + (real \<times> real)" where
  "T2DLinear_grad b x y i j =
     bindE (rd (av_vec (t2_xargs b)) i) (\<lambda>xi.
     bindE (rd (av_vec (t2_xargs b)) (i - 1)) (\<lambda>xm.
     bindE (rd (av_vec (t2_yargs b)) j) (\<lambda>yj.
     bindE (rd (av_vec (t2_yargs b)) (j - 1)) (\<lambda>ym.
     let dx = xi - xm; dy = yj - ym in
     bindE (rd (t2_vals b) ((i - 1) * t2_ny b + j - 1)) (\<lambda>f00.
     bindE (rd (t2_vals b) ((i - 1) * t2_ny b + j)) (\<lambda>f01.
     bindE (rd (t2_vals b) (i * t2_ny b + j - 1)) (\<lambda>f10.
     bindE (rd (t2_vals b) (i * t2_ny b + j)) (\<lambda>f11.
     let ax = (xi - x) / (xi - xm); bx = 1 - ax;
         ay = (yj - y) / (yj - ym); by = 1 - ay in
     Inr (((f10 - f00) * ay + (f11 - f01) * by) / dx,
          ((f01 - f00) * ax + (f11 - f10) * bx) / dy)))))))))"

definition T2DCubic_grad ::
  "T2DCRTP \<Rightarrow> real list \<Rightarrow> real list \<Rightarrow> real list \<Rightarrow> real \<Rightarrow> real \<Rightarrow> int \<Rightarrow> int \<Rightarrow> error + (real \<times> real)" where
  "T2DCubic_grad b dfdx dfdy d2fdxdy x y i j =
     bindE (rd (av_vec (t2_xargs b)) i) (\<lambda>xi.
     bindE (rd (av_vec (t2_xargs b)) (i - 1)) (\<lambda>xm.
     bindE (rd (av_vec (t2_yargs b)) j) (\<lambda>yj.
     bindE (rd (av_vec (t2_yargs b)) (j - 1)) (\<lambda>ym.
     let dxgrid = xi - xm; dygrid = yj - ym;
         dx = (x - xm) / dxgrid; dy = (y - ym) / dygrid in
     bindE (corners (t2_vals b) (t2_ny b) i j) (\<lambda>(f00, f10, f01, f11).
     bindE (corners dfdx (t2_ny b) i j) (\<lambda>(fx00, fx10, fx01, fx11).
     bindE (corners dfdy (t2_ny b) i j) (\<lambda>(fy00, fy10, fy01, fy11).
     bindE (corners d2fdxdy (t2_ny b) i j) (\<lambda>(fxy00, fxy10, fxy01, fxy11).
     let val0 = T2DCubic_oneDGrad dx f00 f10 (fx00 * dxgrid) (fx10 * dxgrid);
         val1 = T2DCubic_oneDGrad dx f01 f11 (fx01 * dxgrid) (fx11 * dxgrid);
         der0 = T2DCubic_oneDGrad dx fy00 fy10 (fxy00 * dxgrid) (fxy10 * dxgrid);
         der1 = T2DCubic_oneDGrad dx fy01 fy11 (fxy01 * dxgrid) (fxy11 * dxgrid);
         gx = T2DCubic_oneDSpline dy val0 val1 (der0 * dygrid) (der1 * dygrid) / dxgrid;
         val0 = T2DCubic_oneDGrad dy f00 f01 (fy00 * dygrid) (fy01 * dygrid);
         val1 = T2DCubic_oneDGrad dy f10 f11 (fy10 * dygrid) (fy11 * dygrid);
         der0 = T2DCubic_oneDGrad dy fx00 fx01 (fxy00 * dygrid) (fxy01 * dygrid);
         der1 = T2DCubic_oneDGrad dy fx10 fx11 (fxy10 * dygrid) (fxy11 * dygrid);
         gy = T2DCubic_oneDSpline dx val0 val1 (der0 * dxgrid) (der1 * dxgrid) / dygrid in
     Inr (gx, gy)))))))))"

definition T2DCubicConvolution_grad :: "T2DCRTP \<Rightarrow> real \<Rightarrow> real \<Rightarrow> int \<Rightarrow> int \<Rightarrow> error + (real \<times> real)" where
  "T2DCubicConvolution_grad b x y i j =
     bindE (rd (av_vec (t2_xargs b)) i) (\<lambda>xi.
     bindE (rd (av_vec (t2_xargs b)) (i - 1)) (\<lambda>xm.
     bindE (rd (av_vec (t2_yargs b)) j) (\<lambda>yj.
     bindE (rd (av_vec (t2_yargs b)) (j - 1)) (\<lambda>ym.
     let dxgrid = xi - xm; dygrid = yj - ym;
         dx = (x - xm) / dxgrid; dy = (y - ym) / dygrid in
     bindE (stencil_x (t2_vals b) (t2_ny b) i (j - 2)) (\<lambda>(a0, a1, a2, a3).
     bindE (stencil_x (t2_vals b) (t2_ny b) i (j - 1)) (\<lambda>(b0, b1, b2, b3).
     bindE (stencil_x (t2_vals b) (t2_ny b) i (j + 0)) (\<lambda>(c0, c1, c2, c3).
     bindE (stencil_x (t2_vals b) (t2_ny b) i (j + 1)) (\<lambda>(d0, d1, d2, d3).
     let valm1 = T2DCubicConvolution_oneDGrad dx a0 a1 a2 a3;
         val0 = T2DCubicConvolution_oneDGrad dx b0 b1 b2 b3;
         val1 = T2DCubicConvolution_oneDGrad dx c0 c1 c2 c3;
         val2 = T2DCubicConvolution_oneDGrad dx d0 d1 d2 d3;
         gx = T2DCubicConvolution_oneDSpline dy valm1 val0 val1 val2 / dxgrid in
     bindE (stencil_y (t2_vals b) (t2_ny b) (i - 2) j) (\<lambda>(p0, p1, p2, p3).
     bindE (stencil_y (t2_vals b) (t2_ny b) (i - 1) j) (\<lambda>(q0, q1, q2, q3).
     bindE (stencil_y (t2_vals b) (t2_ny b) (i + 0) j) (\<lambda>(r0, r1, r2, r3).
     bindE (stencil_y (t2_vals b) (t2_ny b) (i + 1) j) (\<lambda>(s0, s1, s2, s3).
     let valm1 = T2DCubicConvolution_oneDGrad dy p0 p1 p2 p3;
         val0 = T2DCubicConvolution_oneDGrad dy q0 q1 q2 q3;
         val1 = T2DCubicConvolution_oneDGrad dy r0 r1 r2 r3;
         val2 = T2DCubicConvolution_oneDGrad dy s0 s1 s2 s3;
         gy = T2DCubicConvolution_oneDSpline dx valm1 val0 val1 val2 / dygrid in
     Inr (gx, gy)))))))))))))"

subsection \<open>Dispatch and the public interface\<close>

text \<open>\<^verbatim>\<open>static_cast<const T*>(this)->interp(x, y, i, j)\<close> and the same for \<^verbatim>\<open>grad\<close>;
  the four classes without a gradient throw.\<close>

fun interp :: "Table2DImpl \<Rightarrow> real \<Rightarrow> real \<Rightarrow> int \<Rightarrow> int \<Rightarrow> error + real" where
  "interp (T2DFloor b) x y i j = T2DFloor_interp b x y i j"
| "interp (T2DCeil b) x y i j = T2DCeil_interp b x y i j"
| "interp (T2DNearest b) x y i j = T2DNearest_interp b x y i j"
| "interp (T2DLinear b) x y i j = T2DLinear_interp b x y i j"
| "interp (T2DCubic b dfdx dfdy d2fdxdy) x y i j = T2DCubic_interp b dfdx dfdy d2fdxdy x y i j"
| "interp (T2DCubicConvolution b) x y i j = T2DCubicConvolution_interp b x y i j"
| "interp (T2DInterpolant2D b nx k) x y i j = T2DInterpolant2D_interp b nx k x y i j"

fun grad :: "Table2DImpl \<Rightarrow> real \<Rightarrow> real \<Rightarrow> int \<Rightarrow> int \<Rightarrow> error + (real \<times> real)" where
  "grad (T2DFloor b) x y i j = Inl (RuntimeError ''gradient not implemented for floor interp'')"
| "grad (T2DCeil b) x y i j = Inl (RuntimeError ''gradient not implemented for ceil interp'')"
| "grad (T2DNearest b) x y i j = Inl (RuntimeError ''gradient not implemented for nearest interp'')"
| "grad (T2DLinear b) x y i j = T2DLinear_grad b x y i j"
| "grad (T2DCubic b dfdx dfdy d2fdxdy) x y i j = T2DCubic_grad b dfdx dfdy d2fdxdy x y i j"
| "grad (T2DCubicConvolution b) x y i j = T2DCubicConvolution_grad b x y i j"
| "grad (T2DInterpolant2D b nx k) x y i j = Inl (RuntimeError ''gradient not implemented for Interp interp'')"

text \<open>The two calls of \<^verbatim>\<open>upperIndex\<close> that open every member function of
  \<^verbatim>\<open>T2DCRTP\<close>; both hints may change.\<close>

definition t2_indices :: "Table2DImpl \<Rightarrow> real \<Rightarrow> real \<Rightarrow> error + (int \<times> int \<times> Table2DImpl)" where
  "t2_indices t x y =
     bindE (upperIndex (t2_xargs (t2_base t)) x) (\<lambda>(i, xa).
     bindE (upperIndex (t2_yargs (t2_base t)) y) (\<lambda>(j, ya).
       Inr (i, j, t2_with_base t ((t2_base t)\<lparr>t2_xargs := xa, t2_yargs := ya\<rparr>))))"

definition T2DCRTP_lookup :: "Table2DImpl \<Rightarrow> real \<Rightarrow> real \<Rightarrow> error + (real \<times> Table2DImpl)" where
  "T2DCRTP_lookup t x y =
     bindE (t2_indices t x y) (\<lambda>(i, j, t).
     bindE (interp t x y i j) (\<lambda>v. Inr (v, t)))"

definition T2DCRTP_gradient :: "Table2DImpl \<Rightarrow> real \<Rightarrow> real \<Rightarrow> error + ((real \<times> real) \<times> Table2DImpl)" where
  "T2DCRTP_gradient t x y =
     bindE (t2_indices t x y) (\<lambda>(i, j, t).
     bindE (grad t x y i j) (\<lambda>g. Inr (g, t)))"

text \<open>\<^verbatim>\<open>interpMany\<close> and \<^verbatim>\<open>gradientMany\<close>: the loop \<^verbatim>\<open>for (int k=0; k<N; k++)\<close> over the
  caller's arrays; the output arrays are returned updated.\<close>

function T2DCRTP_interpMany ::
  "Table2DImpl \<Rightarrow> real list \<Rightarrow> real list \<Rightarrow> real list \<Rightarrow> int \<Rightarrow> int \<Rightarrow> error + (real list \<times> Table2DImpl)" where
  "T2DCRTP_interpMany t xvec yvec valvec N k =
     (if k < N then
        bindE (rd xvec k) (\<lambda>x.
        bindE (rd yvec k) (\<lambda>y.
        bindE (T2DCRTP_lookup t x y) (\<lambda>(v, t).
        bindE (wr valvec k v) (\<lambda>valvec.
          T2DCRTP_interpMany t xvec yvec valvec N (k + 1)))))
      else Inr (valvec, t))"
  by pat_completeness auto
termination
  by (relation "measure (\<lambda>(t, xvec, yvec, valvec, N, k). nat (N - k))") auto

declare T2DCRTP_interpMany.simps [simp del]

function T2DCRTP_gradientMany ::
  "Table2DImpl \<Rightarrow> real list \<Rightarrow> real list \<Rightarrow> real list \<Rightarrow> real list \<Rightarrow> int \<Rightarrow> int \<Rightarrow>
   error + (real list \<times> real list \<times> Table2DImpl)" where
  "T2DCRTP_gradientMany t xvec yvec dfdxvec dfdyvec N k =
     (if k < N then
        bindE (rd xvec k) (\<lambda>x.
        bindE (rd yvec k) (\<lambda>y.
        bindE (T2DCRTP_gradient t x y) (\<lambda>((dfdx, dfdy), t).
        bindE (wr dfdxvec k dfdx) (\<lambda>dfdxvec.
        bindE (wr dfdyvec k dfdy) (\<lambda>dfdyvec.
          T2DCRTP_gradientMany t xvec yvec dfdxvec dfdyvec N (k + 1))))))
      else Inr (dfdxvec, dfdyvec, t))"
  by pat_completeness auto
termination
  by (relation "measure (\<lambda>(t, xvec, yvec, dfdxvec, dfdyvec, N, k). nat (N - k))") auto

declare T2DCRTP_gradientMany.simps [simp del]

text \<open>\<^verbatim>\<open>Table2D::makeImpl\<close> and the forwarding member functions of \<^verbatim>\<open>Table2D\<close>.\<close>

definition makeImpl ::
  "real list \<Rightarrow> real list \<Rightarrow> real list \<Rightarrow> int \<Rightarrow> int \<Rightarrow> interpolant2 \<Rightarrow>
   real list \<Rightarrow> real list \<Rightarrow> real list \<Rightarrow> InterpolantXY \<Rightarrow> error + Table2DImpl" where
  "makeImpl xargs yargs vals Nx Ny iT dfdx dfdy d2fdxdy interp2d =
     (case iT of
        Table2D_floor \<Rightarrow> bindE (T2DCRTP_new xargs yargs vals Nx Ny) (\<lambda>b. Inr (T2DFloor b))
      | Table2D_ceil \<Rightarrow> bindE (T2DCRTP_new xargs yargs vals Nx Ny) (\<lambda>b. Inr (T2DCeil b))
      | Table2D_nearest \<Rightarrow> bindE (T2DCRTP_new xargs yargs vals Nx Ny) (\<lambda>b. Inr (T2DNearest b))
      | Table2D_linear \<Rightarrow> bindE (T2DCRTP_new xargs yargs vals Nx Ny) (\<lambda>b. Inr (T2DLinear b))
      | Table2D_cubic \<Rightarrow>
          bindE (T2DCRTP_new xargs yargs vals Nx Ny) (\<lambda>b. Inr (T2DCubic b dfdx dfdy d2fdxdy))
      | Table2D_cubicConvolve \<Rightarrow>
          bindE (T2DCRTP_new xargs yargs vals Nx Ny) (\<lambda>b. Inr (T2DCubicConvolution b))
      | Table2D_interpolant2d \<Rightarrow>
          bindE (T2DCRTP_new xargs yargs vals Nx Ny) (\<lambda>b. Inr (T2DInterpolant2D b Nx interp2d))
      | Table2D_other k \<Rightarrow> Inl (RuntimeError ''invalid interpolation method''))"

definition Table2D_lookup :: "Table2DImpl \<Rightarrow> real \<Rightarrow> real \<Rightarrow> error + (real \<times> Table2DImpl)" where
  "Table2D_lookup t x y = T2DCRTP_lookup t x y"

definition Table2D_gradient :: "Table2DImpl \<Rightarrow> real \<Rightarrow> real \<Rightarrow> error + ((real \<times> real) \<times> Table2DImpl)" where
  "Table2D_gradient t x y = T2DCRTP_gradient t x y"

definition Table2D_interpMany ::
  "Table2DImpl \<Rightarrow> real list \<Rightarrow> real list \<Rightarrow> real list \<Rightarrow> int \<Rightarrow> error + (real list \<times> Table2DImpl)" where
  "Table2D_interpMany t xvec yvec valvec N = T2DCRTP_interpMany t xvec yvec valvec N 0"

definition Table2D_gradientMany ::
  "Table2DImpl \<Rightarrow> real list \<Rightarrow> real list \<Rightarrow> real list \<Rightarrow> real list \<Rightarrow> int \<Rightarrow>
   error + (real list \<times> real list \<times> Table2DImpl)" where
  "Table2D_gradientMany t xvec yvec dfdxvec dfdyvec N =
     T2DCRTP_gradientMany t xvec yvec dfdxvec dfdyvec N 0"

section \<open>Histories of calls on a table\<close>

text \<open>
  A table is queried many times, and each call may move the hints of its \<open>ArgVec\<close>s.
  \<open>Table_lookups\<close> performs a sequence of \<^verbatim>\<open>lookup\<close> calls; \<open>lookup_after\<close> is the
  value that \<^verbatim>\<open>Table::lookup(a)\<close> returns on a table constructed from the given
  arrays after such a history, and \<open>interpolate_at\<close> is the value of the table's formula
  at a given bracket index.
\<close>

fun Table_lookups :: "TableImpl \<Rightarrow> real list \<Rightarrow> error + (real list \<times> TableImpl)" where
  "Table_lookups t [] = Inr ([], t)"
| "Table_lookups t (a # as) =
     bindE (Table_lookup t a) (\<lambda>(v, t').
     bindE (Table_lookups t' as) (\<lambda>(vs, t'').
       Inr (v # vs, t'')))"

definition lookup_after ::
  "real list \<Rightarrow> real list \<Rightarrow> int \<Rightarrow> interpolant \<Rightarrow> real list \<Rightarrow> real \<Rightarrow> error + real" where
  "lookup_after args vals N iT hist a =
     bindE (Table_new args vals N iT) (\<lambda>t0.
     bindE (Table_lookups t0 hist) (\<lambda>(vs, t).
     bindE (Table_lookup t a) (\<lambda>(v, t'). Inr v)))"

definition call_after ::
  "real list \<Rightarrow> real list \<Rightarrow> int \<Rightarrow> interpolant \<Rightarrow> real list \<Rightarrow> real \<Rightarrow> error + real" where
  "call_after args vals N iT hist a =
     bindE (Table_new args vals N iT) (\<lambda>t0.
     bindE (Table_lookups t0 hist) (\<lambda>(vs, t).
     bindE (Table_call t a) (\<lambda>(v, t'). Inr v)))"

definition interpolate_at ::
  "real list \<Rightarrow> real list \<Rightarrow> int \<Rightarrow> interpolant \<Rightarrow> real \<Rightarrow> int \<Rightarrow> error + real" where
  "interpolate_at args vals N iT a i =
     bindE (Table_new args vals N iT) (\<lambda>t0. interpolate t0 a i)"

text \<open>The modes with which a table of \<open>N\<close> nodes can be constructed.\<close>

definition constructible :: "interpolant \<Rightarrow> int \<Rightarrow> bool" where
  "constructible iT N \<longleftrightarrow>
     iT \<in> {Table_linear, Table_floor, Table_ceil, Table_nearest} \<or> (iT = Table_spline \<and> 3 \<le> N)"

text \<open>The invariant of a constructed table.\<close>

definition table_ok :: "TableImpl \<Rightarrow> bool" where
  "table_ok t \<longleftrightarrow>
     argvec_ok (t_args t) \<and> t_n t = av_n (t_args t) \<and> int (length (t_vals t)) = t_n t \<and>
     (t_interpolate t = Fn_splineInterpolate \<longrightarrow> length (t_y2 t) = length (t_vals t))"

text \<open>
  The same for \<^verbatim>\<open>Table2D\<close>: a sequence of \<^verbatim>\<open>lookup\<close> calls, and the results of
  \<^verbatim>\<open>lookup\<close>, \<^verbatim>\<open>gradient\<close> and \<^verbatim>\<open>gradientMany\<close> on a table constructed by
  \<^verbatim>\<open>makeImpl\<close> after such a sequence.
\<close>

fun Table2D_lookups :: "Table2DImpl \<Rightarrow> (real \<times> real) list \<Rightarrow> error + (real list \<times> Table2DImpl)" where
  "Table2D_lookups t [] = Inr ([], t)"
| "Table2D_lookups t (p # ps) =
     bindE (Table2D_lookup t (fst p) (snd p)) (\<lambda>(v, t').
     bindE (Table2D_lookups t' ps) (\<lambda>(vs, t'').
       Inr (v # vs, t'')))"

definition lookup2_after ::
  "real list \<Rightarrow> real list \<Rightarrow> real list \<Rightarrow> int \<Rightarrow> int \<Rightarrow> interpolant2 \<Rightarrow>
   real list \<Rightarrow> real list \<Rightarrow> real list \<Rightarrow> InterpolantXY \<Rightarrow> (real \<times> real) list \<Rightarrow>
   real \<Rightarrow> real \<Rightarrow> error + real" where
  "lookup2_after xargs yargs vals Nx Ny iT dfdx dfdy d2fdxdy interp2d hist x y =
     bindE (makeImpl xargs yargs vals Nx Ny iT dfdx dfdy d2fdxdy interp2d) (\<lambda>t0.
     bindE (Table2D_lookups t0 hist) (\<lambda>(vs, t).
     bindE (Table2D_lookup t x y) (\<lambda>(v, t'). Inr v)))"

definition gradient_after ::
  "real list \<Rightarrow> real list \<Rightarrow> real list \<Rightarrow> int \<Rightarrow> int \<Rightarrow> interpolant2 \<Rightarrow>
   real list \<Rightarrow> real list \<Rightarrow> real list \<Rightarrow> InterpolantXY \<Rightarrow> (real \<times> real) list \<Rightarrow>
   real \<Rightarrow> real \<Rightarrow> error + (real \<times> real)" where
  "gradient_after xargs yargs vals Nx Ny iT dfdx dfdy d2fdxdy interp2d hist x y =
     bindE (makeImpl xargs yargs vals Nx Ny iT dfdx dfdy d2fdxdy interp2d) (\<lambda>t0.
     bindE (Table2D_lookups t0 hist) (\<lambda>(vs, t).
     bindE (Table2D_gradient t x y) (\<lambda>(g, t'). Inr g)))"

definition gradientMany_after ::
  "real list \<Rightarrow> real list \<Rightarrow> real list \<Rightarrow> int \<Rightarrow> int \<Rightarrow> interpolant2 \<Rightarrow>
   real list \<Rightarrow> real list \<Rightarrow> real list \<Rightarrow> InterpolantXY \<Rightarrow> (real \<times> real) list \<Rightarrow>
   real list \<Rightarrow> real list \<Rightarrow> real list \<Rightarrow> real list \<Rightarrow> int \<Rightarrow> error + (real list \<times> real list)" where
  "gradientMany_after xargs yargs vals Nx Ny iT dfdx dfdy d2fdxdy interp2d hist
       xvec yvec dfdxvec dfdyvec N =
     bindE (makeImpl xargs yargs vals Nx Ny iT dfdx dfdy d2fdxdy interp2d) (\<lambda>t0.
     bindE (Table2D_lookups t0 hist) (\<lambda>(vs, t).
     bindE (Table2D_gradientMany t xvec yvec dfdxvec dfdyvec N) (\<lambda>(gx, gy, t'). Inr (gx, gy))))"

text \<open>The invariant of the two \<open>ArgVec\<close>s of a constructed \<^verbatim>\<open>Table2D\<close>.\<close>

definition table2d_ok :: "Table2DImpl \<Rightarrow> bool" where
  "table2d_ok t \<longleftrightarrow> argvec_ok (t2_xargs (t2_base t)) \<and> argvec_ok (t2_yargs (t2_base t))"

text \<open>The class of the implementation object, as the mode it was made for.\<close>

fun t2_mode :: "Table2DImpl \<Rightarrow> interpolant2" where
  "t2_mode (T2DFloor b) = Table2D_floor"
| "t2_mode (T2DCeil b) = Table2D_ceil"
| "t2_mode (T2DNearest b) = Table2D_nearest"
| "t2_mode (T2DLinear b) = Table2D_linear"
| "t2_mode (T2DCubic b dfdx dfdy d2fdxdy) = Table2D_cubic"
| "t2_mode (T2DCubicConvolution b) = Table2D_cubicConvolve"
| "t2_mode (T2DInterpolant2D b nx k) = Table2D_interpolant2d"

text \<open>The errors thrown by the four \<^verbatim>\<open>grad\<close> members that have no gradient.\<close>

definition gradient_not_implemented :: "error \<Rightarrow> bool" where
  "gradient_not_implemented e \<longleftrightarrow>
     e = RuntimeError ''gradient not implemented for floor interp'' \<or>
     e = RuntimeError ''gradient not implemented for ceil interp'' \<or>
     e = RuntimeError ''gradient not implemented for nearest interp'' \<or>
     e = RuntimeError ''gradient not implemented for Interp interp''"

text \<open>A result that is a value or an access outside an array, that is, no C++ exception
  was thrown.\<close>

definition no_throw :: "error + 'a \<Rightarrow> bool" where
  "no_throw r \<longleftrightarrow> (case r of Inl OutOfBounds \<Rightarrow> True | Inl e \<Rightarrow> False | Inr v \<Rightarrow> True)"


section \<open>The cubic-convolution kernel\<close>

text \<open>
  The cubic-convolution mode is described as a 4 x 4 stencil of a Catmull-Rom cubic
  convolution kernel, applied separably.  The following definitions are that description,
  written independently of \<^verbatim>\<open>oneDSpline\<close> and \<^verbatim>\<open>oneDGrad\<close>: the kernel \<open>W\<close>
  (the piecewise cubic with \<open>W 0 = 1\<close>, zero at the other integers and outside \<open>[-2, 2]\<close>),
  its derivative \<open>W'\<close>, the grid value \<open>vals[ix*Ny+iy]\<close>, and the pair of sums obtained
  from the interpolant \<open>\<Sum>p q. vals[i-1+p][j-1+q] * W (dx - p) * W (dy - q)\<close> by taking
  \<open>W'\<close> for \<open>W\<close> along \<open>x\<close>, respectively along \<open>y\<close>, and dividing by the node spacing
  of that axis; \<open>dx\<close> and \<open>dy\<close> are the positions of the query in the bracket \<open>(i, j)\<close>
  in units of the node spacing, and \<open>p\<close>, \<open>q\<close> range over \<open>-1, 0, 1, 2\<close>.
\<close>

definition spec_kernel :: "real \<Rightarrow> real" where
  "spec_kernel s =
     (if \<bar>s\<bar> \<le> 1 then 3 / 2 * \<bar>s\<bar> ^ 3 - 5 / 2 * \<bar>s\<bar> ^ 2 + 1
      else if \<bar>s\<bar> < 2 then - 1 / 2 * \<bar>s\<bar> ^ 3 + 5 / 2 * \<bar>s\<bar> ^ 2 - 4 * \<bar>s\<bar> + 2
      else 0)"

definition spec_kernel_deriv :: "real \<Rightarrow> real" where
  "spec_kernel_deriv s =
     sgn s * (if \<bar>s\<bar> \<le> 1 then 9 / 2 * \<bar>s\<bar> ^ 2 - 5 * \<bar>s\<bar>
              else if \<bar>s\<bar> < 2 then - 3 / 2 * \<bar>s\<bar> ^ 2 + 5 * \<bar>s\<bar> - 4
              else 0)"

definition spec_grid :: "real list \<Rightarrow> int \<Rightarrow> int \<Rightarrow> int \<Rightarrow> real" where
  "spec_grid vals ny ix iy = vals ! nat (ix * ny + iy)"

definition spec_gradient ::
  "real list \<Rightarrow> real list \<Rightarrow> real list \<Rightarrow> int \<Rightarrow> real \<Rightarrow> real \<Rightarrow> int \<Rightarrow> int \<Rightarrow> real \<times> real" where
  "spec_gradient xs ys vals ny x y i j =
     (let hx = xs ! nat i - xs ! nat (i - 1);
          hy = ys ! nat j - ys ! nat (j - 1);
          dx = (x - xs ! nat (i - 1)) / hx;
          dy = (y - ys ! nat (j - 1)) / hy in
      ((\<Sum>p\<leftarrow>[- 1, 0, 1, 2]. \<Sum>q\<leftarrow>[- 1, 0, 1, 2].
           spec_grid vals ny (i - 1 + p) (j - 1 + q) *
           spec_kernel_deriv (dx - real_of_int p) * spec_kernel (dy - real_of_int q)) / hx,
       (\<Sum>p\<leftarrow>[- 1, 0, 1, 2]. \<Sum>q\<leftarrow>[- 1, 0, 1, 2].
           spec_grid vals ny (i - 1 + p) (j - 1 + q) *
           spec_kernel (dx - real_of_int p) * spec_kernel_deriv (dy - real_of_int q)) / hy))"


section \<open>Verification: ArgVec\<close>

lemma bindE_Inr [simp]: "bindE (Inr x) f = f x" by (simp add: bindE_def)
lemma bindE_Inl [simp]: "bindE (Inl e) f = Inl e" by (simp add: bindE_def)

lemma rd_in [simp]: "0 \<le> i \<Longrightarrow> i < int (length xs) \<Longrightarrow> rd xs i = Inr (xs ! nat i)"
  by (simp add: rd_def)

lemma wr_in [simp]: "0 \<le> i \<Longrightarrow> i < int (length xs) \<Longrightarrow> wr xs i x = Inr (xs[nat i := x])"
  by (simp add: wr_def)

lemma scan_up_ok:
  "0 \<le> i \<Longrightarrow> i < int (length v) \<Longrightarrow> a \<le> v ! (length v - 1) \<Longrightarrow>
   \<exists>j. scan_up v a i = Inr j \<and> i \<le> j \<and> j < int (length v) \<and> a \<le> v ! nat j"
proof (induction v a i rule: scan_up.induct)
  case (1 v a i)
  show ?case
  proof (cases "a > v ! nat i")
    case True
    have "i \<noteq> int (length v) - 1"
    proof
      assume "i = int (length v) - 1"
      then have "nat i = length v - 1" by simp
      with True "1.prems" show False by simp
    qed
    with "1.prems" have b: "0 \<le> i + 1" "i + 1 < int (length v)" by auto
    from "1.IH"[OF _ True b "1.prems"(3)] "1.prems"(1,2)
    obtain j where "scan_up v a (i + 1) = Inr j" "i + 1 \<le> j" "j < int (length v)" "a \<le> v ! nat j"
      by auto
    with True "1.prems" show ?thesis
      by (subst scan_up.simps) auto
  next
    case False
    with "1.prems" show ?thesis by (subst scan_up.simps) auto
  qed
qed

lemma scan_down_ok:
  "1 \<le> i \<Longrightarrow> i < int (length v) \<Longrightarrow> v ! 0 \<le> a \<Longrightarrow> a \<le> v ! nat i \<Longrightarrow>
   \<exists>j. scan_down v a i = Inr j \<and> 1 \<le> j \<and> j \<le> i \<and> v ! nat (j - 1) \<le> a \<and> a \<le> v ! nat j"
proof (induction v a i rule: scan_down.induct)
  case (1 v a i)
  show ?case
  proof (cases "a < v ! nat (i - 1)")
    case True
    have "i \<noteq> 1" using True "1.prems" by auto
    with "1.prems" have b: "1 \<le> i - 1" "i - 1 < int (length v)" by auto
    have c: "0 \<le> i - 1 \<and> i - 1 < int (length v)" using b by simp
    from True have d: "a \<le> v ! nat (i - 1)" by simp
    from "1.IH"[OF c True b "1.prems"(3) d]
    obtain j where "scan_down v a (i - 1) = Inr j" "1 \<le> j" "j \<le> i - 1" "v ! nat (j - 1) \<le> a" "a \<le> v ! nat j"
      by auto
    with True "1.prems" show ?thesis
      by (subst scan_down.simps) auto
  next
    case False
    with "1.prems" show ?thesis by (subst scan_down.simps) auto
  qed
qed

lemma upper_bound_loop_ok:
  "0 \<le> first \<Longrightarrow> 0 \<le> len \<Longrightarrow> first + len \<le> int (length v) \<Longrightarrow>
   \<exists>p. upper_bound_loop v first len a = Inr p \<and> first \<le> p \<and> p \<le> first + len \<and>
       (p = first \<or> v ! nat (p - 1) \<le> a) \<and> (p = first + len \<or> a < v ! nat p)"
proof (induction v first len a rule: upper_bound_loop.induct)
  case (1 v first len a)
  show ?case
  proof (cases "len > 0")
    case False
    with "1.prems" show ?thesis by (subst upper_bound_loop.simps) auto
  next
    case True
    define half where "half = len div 2"
    define middle where "middle = first + half"
    have h: "0 \<le> half" "half < len" using True by (auto simp: half_def)
    have m: "0 \<le> middle" "middle < int (length v)" using h "1.prems" by (auto simp: middle_def)
    have step: "upper_bound_loop v first len a =
      (if a < v ! nat middle then upper_bound_loop v first half a
       else upper_bound_loop v (middle + 1) (len - half - 1) a)"
      using True m by (subst upper_bound_loop.simps) (simp add: Let_def half_def middle_def)
    show ?thesis
    proof (cases "a < v ! nat middle")
      case lt: True
      have b: "first + half \<le> int (length v)" using h "1.prems" by simp
      from "1.IH"(1)[OF True half_def middle_def lt "1.prems"(1) h(1) b]
      obtain p where p: "upper_bound_loop v first half a = Inr p" "first \<le> p" "p \<le> first + half"
        "p = first \<or> v ! nat (p - 1) \<le> a" "p = first + half \<or> a < v ! nat p" by blast
      have "a < v ! nat p" using p(5) lt by (auto simp: middle_def)
      moreover have "p \<le> first + len" using p(3) h by simp
      ultimately show ?thesis using p(1,2,4) lt step by simp
    next
      case ge: False
      have b: "0 \<le> middle + 1" "0 \<le> len - half - 1" "middle + 1 + (len - half - 1) \<le> int (length v)"
        using h m "1.prems" by (auto simp: middle_def)
      from "1.IH"(2)[OF True half_def middle_def ge b]
      obtain p where p: "upper_bound_loop v (middle + 1) (len - half - 1) a = Inr p" "middle + 1 \<le> p"
        "p \<le> middle + 1 + (len - half - 1)"
        "p = middle + 1 \<or> v ! nat (p - 1) \<le> a" "p = middle + 1 + (len - half - 1) \<or> a < v ! nat p" by blast
      have "v ! nat (p - 1) \<le> a" using p(4) ge by auto
      moreover have "first \<le> p" using p(2) h by (simp add: middle_def)
      moreover have "p \<le> first + len" using p(3) by (simp add: middle_def)
      moreover have "p = first + len \<or> a < v ! nat p" using p(5) by (auto simp: middle_def)
      ultimately show ?thesis using p(1) ge step by simp
    qed
  qed
qed

lemma lower_bound_loop_ok:
  "0 \<le> first \<Longrightarrow> 0 \<le> len \<Longrightarrow> first + len \<le> int (length v) \<Longrightarrow>
   \<exists>p. lower_bound_loop v first len a = Inr p \<and> first \<le> p \<and> p \<le> first + len \<and>
       (p = first \<or> v ! nat (p - 1) < a) \<and> (p = first + len \<or> a \<le> v ! nat p)"
proof (induction v first len a rule: lower_bound_loop.induct)
  case (1 v first len a)
  show ?case
  proof (cases "len > 0")
    case False
    with "1.prems" show ?thesis by (subst lower_bound_loop.simps) auto
  next
    case True
    define half where "half = len div 2"
    define middle where "middle = first + half"
    have h: "0 \<le> half" "half < len" using True by (auto simp: half_def)
    have m: "0 \<le> middle" "middle < int (length v)" using h "1.prems" by (auto simp: middle_def)
    have step: "lower_bound_loop v first len a =
      (if v ! nat middle < a then lower_bound_loop v (middle + 1) (len - half - 1) a
       else lower_bound_loop v first half a)"
      using True m by (subst lower_bound_loop.simps) (simp add: Let_def half_def middle_def)
    show ?thesis
    proof (cases "v ! nat middle < a")
      case ge: False
      have b: "first + half \<le> int (length v)" using h "1.prems" by simp
      from "1.IH"(2)[OF True half_def middle_def ge "1.prems"(1) h(1) b]
      obtain p where p: "lower_bound_loop v first half a = Inr p" "first \<le> p" "p \<le> first + half"
        "p = first \<or> v ! nat (p - 1) < a" "p = first + half \<or> a \<le> v ! nat p" by blast
      have "a \<le> v ! nat p" using p(5) ge by (auto simp: middle_def)
      moreover have "p \<le> first + len" using p(3) h by simp
      ultimately show ?thesis using p(1,2,4) ge step by simp
    next
      case lt: True
      have b: "0 \<le> middle + 1" "0 \<le> len - half - 1" "middle + 1 + (len - half - 1) \<le> int (length v)"
        using h m "1.prems" by (auto simp: middle_def)
      from "1.IH"(1)[OF True half_def middle_def lt b]
      obtain p where p: "lower_bound_loop v (middle + 1) (len - half - 1) a = Inr p" "middle + 1 \<le> p"
        "p \<le> middle + 1 + (len - half - 1)"
        "p = middle + 1 \<or> v ! nat (p - 1) < a" "p = middle + 1 + (len - half - 1) \<or> a \<le> v ! nat p" by blast
      have "v ! nat (p - 1) < a" using p(4) lt by auto
      moreover have "first \<le> p" using p(2) h by (simp add: middle_def)
      moreover have "p \<le> first + len" using p(3) by (simp add: middle_def)
      moreover have "p = first + len \<or> a \<le> v ! nat p" using p(5) by (auto simp: middle_def)
      ultimately show ?thesis using p(1) lt step by simp
    qed
  qed
qed



lemma equalSpaced_loop_ok:
  "0 \<le> i \<Longrightarrow> n \<le> int (length v) \<Longrightarrow> 0 < length v \<Longrightarrow> \<exists>e. equalSpaced_loop v n d i eq = Inr e"
proof (induction v n d i eq rule: equalSpaced_loop.induct)
  case (1 v n d i eq)
  show ?case
  proof (cases "i < n")
    case True
    have "0 \<le> i + 1" using "1.prems" by simp
    from "1.IH"[OF True this "1.prems"(2,3)] True "1.prems" show ?thesis
      by (subst equalSpaced_loop.simps) simp
  next
    case False
    then show ?thesis by (subst equalSpaced_loop.simps) simp
  qed
qed

lemma ArgVec_new_ok:
  assumes "sorted_wrt (<) v" "n = int (length v)" "2 \<le> n"
  shows "\<exists>av. ArgVec_new v n = Inr av \<and> argvec_ok av \<and> av_vec av = v \<and> av_n av = n \<and> av_lastIndex av = 1"
proof -
  have a: "(0::int) \<le> 1" "n \<le> int (length v)" "0 < length v" using assms by auto
  obtain e where e: "equalSpaced_loop v n ((v ! nat (n - 1) - v ! 0) / of_int (n - 1)) 1 True = Inr e"
    using equalSpaced_loop_ok[OF a] by blast
  have r: "rd v (n - 1) = Inr (v ! nat (n - 1))" "rd v 0 = Inr (v ! 0)" "rd v 1 = Inr (v ! 1)"
    "rd v (n - 2) = Inr (v ! nat (n - 2))"
    using assms by (auto simp: rd_def)
  show ?thesis using assms(1,3) e unfolding ArgVec_new_def r bindE_Inr Let_def
    by (simp add: argvec_ok_def assms(2)[symmetric])
qed

lemma upperIndex_ok:
  assumes ok: "argvec_ok av"
  shows "\<exists>i l. upperIndex av a = Inr (i, av\<lparr>av_lastIndex := l\<rparr>) \<and> argvec_ok (av\<lparr>av_lastIndex := l\<rparr>) \<and>
           1 \<le> i \<and> i \<le> av_n av - 1 \<and>
           (a < av_vec av ! 0 \<longrightarrow> i = 1 \<and> l = av_lastIndex av) \<and>
           (av_vec av ! nat (av_n av - 1) < a \<longrightarrow> i = av_n av - 1 \<and> l = av_lastIndex av) \<and>
           (av_vec av ! 0 \<le> a \<and> a \<le> av_vec av ! nat (av_n av - 1) \<longrightarrow>
              av_vec av ! nat (i - 1) \<le> a \<and> a \<le> av_vec av ! nat i)"
proof -
  define v where "v = av_vec av"
  define n where "n = av_n av"
  define l where "l = av_lastIndex av"
  have n: "n = int (length v)" "2 \<le> n" and l: "1 \<le> l" "l \<le> n - 1"
    and srt: "sorted_wrt (<) v"
    and da: "av_da av = (v ! nat (n - 1) - v ! 0) / of_int (n - 1)"
    using ok by (auto simp: argvec_ok_def v_def n_def l_def)
  have lt: "v ! 0 < v ! nat (n - 1)"
    using srt n by (auto simp: sorted_wrt_iff_nth_less)
  have self: "av\<lparr>av_lastIndex := av_lastIndex av\<rparr> = av" by simp
  have okl: "argvec_ok (av\<lparr>av_lastIndex := k\<rparr>)" if "1 \<le> k" "k \<le> n - 1" for k
    using ok that by (simp add: argvec_ok_def n_def)
  have fr: "av_front av = Inr (v ! 0)" using n by (auto simp: av_front_def v_def rd_def)
  have bk: "av_back av = Inr (v ! nat (n - 1))" using n by (auto simp: av_back_def v_def n_def rd_def)
  consider (low) "a < v ! 0" | (high) "v ! nat (n - 1) < a" | (mid) "v ! 0 \<le> a" "a \<le> v ! nat (n - 1)"
    by linarith
  then show ?thesis
  proof cases
    case low
    then have "upperIndex av a = Inr (1, av\<lparr>av_lastIndex := l\<rparr>)"
      by (simp add: upperIndex_def fr l_def)
    with low lt okl[of l] l n show ?thesis
      unfolding v_def[symmetric] n_def[symmetric] l_def[symmetric] by (intro exI[of _ 1] exI[of _ l]) simp
  next
    case high
    then have "upperIndex av a = Inr (n - 1, av\<lparr>av_lastIndex := l\<rparr>)"
      using lt by (simp add: upperIndex_def fr bk l_def n_def)
    with high lt okl[of l] l n show ?thesis
      unfolding v_def[symmetric] n_def[symmetric] l_def[symmetric] by (intro exI[of _ "n - 1"] exI[of _ l]) simp
  next
    case mid
    have goal: "\<exists>i k. upperIndex av a = Inr (i, av\<lparr>av_lastIndex := k\<rparr>) \<and> 1 \<le> k \<and> k \<le> n - 1 \<and>
       1 \<le> i \<and> i \<le> n - 1 \<and> v ! nat (i - 1) \<le> a \<and> a \<le> v ! nat i"
    proof (cases "av_equalSpaced av")
      case True
      define i0 where "i0 = \<lceil>(a - v ! 0) / av_da av\<rceil>"
      define i1 where "i1 = (if i0 \<ge> n then i0 - 1 else i0)"
      define i2 where "i2 = (if i1 = 0 then i1 + 1 else i1)"
      have dpos: "0 < av_da av" using lt n by (simp add: da)
      have "0 \<le> (a - v ! 0) / av_da av" using mid dpos by simp
      then have i0lo: "0 \<le> i0" unfolding i0_def by (simp add: ceiling_le_iff[symmetric] zero_le_ceiling)
      have "(a - v ! 0) / av_da av \<le> of_int (n - 1)"
      proof -
        have "a - v ! 0 \<le> v ! nat (n - 1) - v ! 0" using mid by simp
        also have "\<dots> = av_da av * of_int (n - 1)" using n by (simp add: da)
        finally show ?thesis using dpos by (simp add: pos_divide_le_eq mult.commute)
      qed
      then have i0hi: "i0 \<le> n - 1" unfolding i0_def by (rule ceiling_le)
      have i2: "1 \<le> i2" "i2 \<le> n - 1" using i0lo i0hi n by (auto simp: i1_def i2_def)
      have last: "a \<le> v ! (length v - 1)" using mid n by (simp add: nat_diff_distrib')
      obtain j where j: "scan_up v a i2 = Inr j" "i2 \<le> j" "j < int (length v)" "a \<le> v ! nat j"
        using scan_up_ok[of i2 v a] i2 n last by auto
      obtain k where k: "scan_down v a j = Inr k" "1 \<le> k" "k \<le> j" "v ! nat (k - 1) \<le> a" "a \<le> v ! nat k"
        using scan_down_ok[of j v a] j i2 mid by auto
      have "upperIndex av a = bindE (scan_up v a i2) (\<lambda>i. bindE (scan_down v a i) (\<lambda>i. Inr (i, av)))"
        using mid True
        by (simp add: upperIndex_def fr bk Let_def v_def[symmetric] n_def[symmetric]
              i0_def i1_def i2_def)
      then have "upperIndex av a = Inr (k, av)"
        using j(1) k(1) by simp
      then have "upperIndex av a = Inr (k, av\<lparr>av_lastIndex := l\<rparr>)" by (simp add: l_def)
      with k j l n show ?thesis by (intro exI[of _ k] exI[of _ l]) simp
    next
      case False
      have rdl1: "rd v (l - 1) = Inr (v ! nat (l - 1))" using l n by simp
      have rdl: "rd v l = Inr (v ! nat l)" using l n by simp
      consider (lower) "a < v ! nat (l - 1)" | (upper) "\<not> a < v ! nat (l - 1)" "a > v ! nat l"
        | (stay) "\<not> a < v ! nat (l - 1)" "\<not> a > v ! nat l" by blast
      then show ?thesis
      proof cases
        case lower
        have l2: "2 \<le> l"
        proof (rule ccontr)
          assume "\<not> 2 \<le> l"
          then have "l = 1" using l by simp
          with lower mid show False by simp
        qed
        have rdl2: "rd v (l - 2) = Inr (v ! nat (l - 2))" using l l2 n by simp
        show ?thesis
        proof (cases "a \<ge> v ! nat (l - 2)")
          case True
          have "upperIndex av a = Inr (l - 1, av\<lparr>av_lastIndex := l - 1\<rparr>)"
            using mid False lower True rdl1 rdl2
            by (simp add: upperIndex_def fr bk Let_def v_def[symmetric] n_def[symmetric] l_def[symmetric])
          moreover have "nat (l - 1 - 1) = nat (l - 2)" by simp
          ultimately show ?thesis using l l2 True lower
            by (intro exI[of _ "l - 1"] exI[of _ "l - 1"]) simp
        next
          case F2: False
          obtain p where p: "upper_bound_loop v 0 (l - 1) a = Inr p" "0 \<le> p" "p \<le> 0 + (l - 1)"
            "p = 0 \<or> v ! nat (p - 1) \<le> a" "p = 0 + (l - 1) \<or> a < v ! nat p"
            using upper_bound_loop_ok[of 0 "l - 1" v a] l l2 n by auto
          have p0: "p \<noteq> 0" using p(5) mid l2 by auto
          have "p \<noteq> l - 1"
          proof
            assume "p = l - 1"
            then have "v ! nat (l - 1 - 1) \<le> a" using p(4) p0 by simp
            moreover have "nat (l - 1 - 1) = nat (l - 2)" by simp
            ultimately show False using F2 by simp
          qed
          then have pb: "1 \<le> p" "p \<le> l - 2" "v ! nat (p - 1) \<le> a" "a < v ! nat p" using p p0 by auto
          have "upperIndex av a = Inr (p, av\<lparr>av_lastIndex := p\<rparr>)"
            using mid False lower F2 rdl1 rdl2 p(1)
            by (simp add: upperIndex_def fr bk Let_def v_def[symmetric] n_def[symmetric] l_def[symmetric]
                  std_upper_bound_def)
          then show ?thesis using pb l
            by (intro exI[of _ p] exI[of _ p]) simp
        qed
      next
        case upper
        have l2: "l + 1 \<le> n - 1"
        proof (rule ccontr)
          assume "\<not> l + 1 \<le> n - 1"
          then have "l = n - 1" using l by simp
          with upper mid show False by simp
        qed
        have rdl2: "rd v (l + 1) = Inr (v ! nat (l + 1))" using l l2 n by simp
        show ?thesis
        proof (cases "a \<le> v ! nat (l + 1)")
          case True
          have "upperIndex av a = Inr (l + 1, av\<lparr>av_lastIndex := l + 1\<rparr>)"
            using mid False upper True rdl rdl1 rdl2
            by (simp add: upperIndex_def fr bk Let_def v_def[symmetric] n_def[symmetric] l_def[symmetric])
          then show ?thesis using l l2 True upper
            by (intro exI[of _ "l + 1"] exI[of _ "l + 1"]) simp
        next
          case F2: False
          obtain p where p: "lower_bound_loop v (l + 1) (n - (l + 1)) a = Inr p" "l + 1 \<le> p"
            "p \<le> (l + 1) + (n - (l + 1))"
            "p = l + 1 \<or> v ! nat (p - 1) < a" "p = (l + 1) + (n - (l + 1)) \<or> a \<le> v ! nat p"
            using lower_bound_loop_ok[of "l + 1" "n - (l + 1)" v a] l l2 n by auto
          have p0: "p \<noteq> l + 1" using p(5) F2 l2 by auto
          have "p \<noteq> n"
          proof
            assume "p = n"
            then have "v ! nat (n - 1) < a" using p(4) p0 by simp
            then show False using mid by simp
          qed
          then have pb: "l + 2 \<le> p" "p \<le> n - 1" "v ! nat (p - 1) < a" "a \<le> v ! nat p" using p p0 by auto
          have "upperIndex av a = Inr (p, av\<lparr>av_lastIndex := p\<rparr>)"
            using mid False upper F2 rdl rdl1 rdl2 p(1)
            by (simp add: upperIndex_def fr bk Let_def v_def[symmetric] n_def[symmetric] l_def[symmetric]
                  std_lower_bound_def)
          then show ?thesis using pb l
            by (intro exI[of _ p] exI[of _ p]) simp
        qed
      next
        case stay
        have "upperIndex av a = Inr (l, av)"
          using mid False stay rdl rdl1
          by (simp add: upperIndex_def fr bk Let_def v_def[symmetric] n_def[symmetric] l_def[symmetric])
        then have "upperIndex av a = Inr (l, av\<lparr>av_lastIndex := l\<rparr>)" by (simp add: l_def)
        then show ?thesis using l stay
          by (intro exI[of _ l] exI[of _ l]) simp
      qed
    qed
    then obtain i k where ik: "upperIndex av a = Inr (i, av\<lparr>av_lastIndex := k\<rparr>)" "1 \<le> k" "k \<le> n - 1"
       "1 \<le> i" "i \<le> n - 1" "v ! nat (i - 1) \<le> a" "a \<le> v ! nat i" by blast
    with mid okl[of k] show ?thesis
      unfolding v_def[symmetric] n_def[symmetric] l_def[symmetric]
      by (intro exI[of _ i] exI[of _ k]) simp
  qed
qed



lemma upperIndex_calls_ok:
  "argvec_ok av \<Longrightarrow>
   \<exists>is l. upperIndex_calls av hist = Inr (is, av\<lparr>av_lastIndex := l\<rparr>) \<and> argvec_ok (av\<lparr>av_lastIndex := l\<rparr>)"
proof (induction hist arbitrary: av)
  case Nil
  have "av\<lparr>av_lastIndex := av_lastIndex av\<rparr> = av" by simp
  with Nil show ?case by (intro exI[of _ "[]"] exI[of _ "av_lastIndex av"]) simp
next
  case (Cons a hist)
  from upperIndex_ok[OF Cons.prems, of a] obtain i l where
    il: "upperIndex av a = Inr (i, av\<lparr>av_lastIndex := l\<rparr>)" "argvec_ok (av\<lparr>av_lastIndex := l\<rparr>)" by blast
  from Cons.IH[OF il(2)] obtain js k where
    jk: "upperIndex_calls (av\<lparr>av_lastIndex := l\<rparr>) hist = Inr (js, av\<lparr>av_lastIndex := k\<rparr>)"
        "argvec_ok (av\<lparr>av_lastIndex := k\<rparr>)" by auto
  show ?case using il jk by (intro exI[of _ "i # js"] exI[of _ k]) simp
qed

lemma bracket_unique:
  assumes "sorted_wrt (<) (v::real list)" "1 \<le> i" "i \<le> int (length v) - 1" "1 \<le> j" "j \<le> int (length v) - 1"
    "v ! nat (i - 1) \<le> a" "a \<le> v ! nat i" "v ! nat (j - 1) \<le> a" "a \<le> v ! nat j"
    "a \<notin> set (butlast (tl v))"
  shows "i = j"
proof -
  have interior: False if "1 \<le> k" "k \<le> int (length v) - 2" "a = v ! nat k" for k
  proof -
    have "nat k - 1 < length (butlast (tl v))" using that by auto
    then have "butlast (tl v) ! (nat k - 1) \<in> set (butlast (tl v))" by (rule nth_mem)
    moreover have "butlast (tl v) ! (nat k - 1) = v ! nat k"
      using that by (simp add: nth_butlast nth_tl)
    ultimately show False using assms(10) that(3) by simp
  qed
  have mono: "v ! nat p \<le> v ! nat q" if "0 \<le> p" "p \<le> q" "q < int (length v)" for p q
  proof (cases "p = q")
    case True then show ?thesis by simp
  next
    case False
    then have "nat p < nat q" "nat q < length v" using that by auto
    then show ?thesis using assms(1) by (simp add: sorted_wrt_iff_nth_less less_imp_le)
  qed
  have half: False if "i' < j'" "1 \<le> i'" "j' \<le> int (length v) - 1"
     "a \<le> v ! nat i'" "v ! nat (j' - 1) \<le> a" for i' j'
  proof -
    have "v ! nat i' \<le> v ! nat (j' - 1)" using that by (intro mono) auto
    then have "a = v ! nat i'" using that by simp
    then show False using interior[of i'] that by simp
  qed
  show ?thesis
  proof (rule ccontr)
    assume "i \<noteq> j"
    then consider "i < j" | "j < i" by linarith
    then show False
      using half[of i j] half[of j i] assms by cases auto
  qed
qed

lemma after_unfold:
  assumes "sorted_wrt (<) v" "n = int (length v)" "2 \<le> n"
  shows "\<exists>av. argvec_ok av \<and> av_vec av = v \<and> av_n av = n \<and>
     upperIndex_after v n hist a = bindE (upperIndex av a) (\<lambda>(i, av'). Inr i) \<and>
     lastIndex_after v n hist = Inr (av_lastIndex av)"
proof -
  obtain av0 where av0: "ArgVec_new v n = Inr av0" "argvec_ok av0" "av_vec av0 = v" "av_n av0 = n"
    using ArgVec_new_ok[OF assms] by blast
  obtain js l where l: "upperIndex_calls av0 hist = Inr (js, av0\<lparr>av_lastIndex := l\<rparr>)"
     "argvec_ok (av0\<lparr>av_lastIndex := l\<rparr>)"
    using upperIndex_calls_ok[OF av0(2)] by blast
  show ?thesis
    using av0 l by (intro exI[of _ "av0\<lparr>av_lastIndex := l\<rparr>"])
      (simp add: upperIndex_after_def lastIndex_after_def)
qed

lemma upperIndex_after_ok:
  assumes "sorted_wrt (<) v" "n = int (length v)" "2 \<le> n"
  shows "\<exists>i. upperIndex_after v n hist a = Inr i \<and> 1 \<le> i \<and> i \<le> n - 1 \<and>
           (a < v ! 0 \<longrightarrow> i = 1) \<and> (v ! nat (n - 1) < a \<longrightarrow> i = n - 1) \<and>
           (v ! 0 \<le> a \<and> a \<le> v ! nat (n - 1) \<longrightarrow> v ! nat (i - 1) \<le> a \<and> a \<le> v ! nat i)"
proof -
  obtain av where av: "argvec_ok av" "av_vec av = v" "av_n av = n"
     "upperIndex_after v n hist a = bindE (upperIndex av a) (\<lambda>(i, av'). Inr i)"
    using after_unfold[OF assms] by blast
  from upperIndex_ok[OF av(1), of a] av(2,3,4) show ?thesis by auto
qed

text \<open>
  Claim C1, as amended.  For an \<open>ArgVec\<close> built from a strictly increasing array of
  \<open>n \<ge> 2\<close> elements and a query \<open>a\<close> with \<open>args[0] \<le> a \<le> args[n-1]\<close>, after any
  history \<open>hist\<close> of earlier calls \<^verbatim>\<open>upperIndex(a)\<close> returns an index \<open>i\<close> with
  \<open>1 \<le> i \<le> n-1\<close> and \<open>args[i-1] \<le> a \<le> args[i]\<close>, whichever of the two paths the
  constructor selected.  When \<open>a\<close> is not one of the interior nodes
  \<open>args[1] .. args[n-2]\<close> the index is the same after every other history \<open>hist'\<close>.
\<close>
theorem upperIndex_bracket:
  assumes "sorted_wrt (<) v" "n = int (length v)" "2 \<le> n" "v ! 0 \<le> a" "a \<le> v ! nat (n - 1)"
  shows "\<exists>i. upperIndex_after v n hist a = Inr i \<and> 1 \<le> i \<and> i \<le> n - 1 \<and>
           v ! nat (i - 1) \<le> a \<and> a \<le> v ! nat i \<and>
           (a \<notin> set (butlast (tl v)) \<longrightarrow> upperIndex_after v n hist' a = Inr i)"
proof -
  obtain i where i: "upperIndex_after v n hist a = Inr i" "1 \<le> i" "i \<le> n - 1"
     "v ! nat (i - 1) \<le> a" "a \<le> v ! nat i"
    using upperIndex_after_ok[OF assms(1-3), of hist a] assms(4,5) by blast
  obtain j where j: "upperIndex_after v n hist' a = Inr j" "1 \<le> j" "j \<le> n - 1"
     "v ! nat (j - 1) \<le> a" "a \<le> v ! nat j"
    using upperIndex_after_ok[OF assms(1-3), of hist' a] assms(4,5) by blast
  have "i = j" if "a \<notin> set (butlast (tl v))"
    using bracket_unique[OF assms(1) _ _ _ _ i(4,5) j(4,5) that] i j assms(2) by simp
  with i j show ?thesis by auto
qed

theorem upperIndex_bracket_witness:
  "\<exists>i. upperIndex_after [0, 1, 3] 3 [2, 0] (1/2) = Inr i \<and> 1 \<le> i \<and> i \<le> 3 - 1 \<and>
           [0, 1, 3] ! nat (i - 1) \<le> (1/2::real) \<and> 1/2 \<le> [0, 1, 3::real] ! nat i \<and>
           upperIndex_after [0, 1, 3] 3 [] (1/2) = Inr i"
  using upperIndex_bracket[of "[0, 1, 3]" 3 "1/2" "[2, 0]" "[]"] by simp

text \<open>
  Claim C1 as stated fails at an interior node: on the array \<open>[0, 1, 3]\<close> a fresh
  object answers the query \<open>1\<close> with index \<open>1\<close>, and after one call with the query
  \<open>2\<close> it answers the same query with index \<open>2\<close>.
\<close>

theorem upperIndex_hint_counterexample:
  "upperIndex_after [0, 1, 3] 3 [] 1 = Inr 1 \<and> upperIndex_after [0, 1, 3] 3 [2] 1 = Inr 2"
  by (simp add: upperIndex_after_def ArgVec_new_def equalSpaced_loop.simps rd_def Let_def tolerance_def
       upperIndex_def av_front_def av_back_def)

text \<open>
  Claim C9.  For an \<open>ArgVec\<close> built from a strictly increasing array of \<open>n \<ge> 2\<close>
  elements, the hint \<^verbatim>\<open>_lastIndex\<close> satisfies \<open>1 \<le> _lastIndex \<le> n-1\<close> after the
  constructor (\<open>hist = []\<close>) and after every sequence \<open>hist\<close> of calls of
  \<^verbatim>\<open>upperIndex\<close> with arbitrary query values; the constructor and every call return
  normally, that is, no access leaves the array (an access outside it is the result
  \<open>Inl OutOfBounds\<close>).
\<close>
theorem lastIndex_in_range:
  assumes "sorted_wrt (<) v" "n = int (length v)" "2 \<le> n"
  shows "\<exists>l. lastIndex_after v n hist = Inr l \<and> 1 \<le> l \<and> l \<le> n - 1"
proof -
  obtain av where av: "argvec_ok av" "av_vec av = v" "av_n av = n"
     "lastIndex_after v n hist = Inr (av_lastIndex av)"
    using after_unfold[OF assms, of hist 0] by blast
  then show ?thesis by (auto simp: argvec_ok_def)
qed


theorem lastIndex_in_range_witness:
  "\<exists>l. lastIndex_after [0, 1, 3, 7] 4 [5, -1, 9, 0, 2] = Inr l \<and> 1 \<le> l \<and> l \<le> 4 - 1"
  using lastIndex_in_range[of "[0, 1, 3, 7]" 4 "[5, -1, 9, 0, 2]"] by simp

section \<open>Verification: the spline set-up\<close>

lemma rd_eq: "i = int j \<Longrightarrow> j < length xs \<Longrightarrow> rd xs i = Inr (xs ! j)"
  by (simp add: rd_def)

lemma wr_eq: "i = int j \<Longrightarrow> j < length xs \<Longrightarrow> wr xs i u = Inr (xs[j := u])"
  by (simp add: wr_def)

lemma spline_rhs_loop_ok:
  assumes "n = int (length x)" "length y = length x"
  shows "length x - 1 - k = m \<Longrightarrow> 1 \<le> k \<Longrightarrow> length y2 = length x \<Longrightarrow>
    \<exists>z. spline_rhs_loop x y n (int k) y2 = Inr z \<and> length z = length x \<and>
      (\<forall>j. j < k \<or> length x - 1 \<le> j \<longrightarrow> z ! j = y2 ! j) \<and>
      (\<forall>j. k \<le> j \<and> j + 2 \<le> length x \<longrightarrow> z ! j = spline_rhs x y j)"
proof (induction m arbitrary: k y2)
  case 0
  then have "(int k \<le> n - 2) = False" using assms by auto
  then have "spline_rhs_loop x y n (int k) y2 = Inr y2"
    by (subst spline_rhs_loop.simps) (simp only: if_False)
  moreover have "\<not> (k \<le> j \<and> j + 2 \<le> length x)" for j using 0 by auto
  ultimately show ?case using 0 by simp
next
  case (Suc m)
  define v where "v = spline_rhs x y k"
  have b: "(int k \<le> n - 2) = True" and b2: "k + 2 \<le> length x" using Suc.prems assms by auto
  have r: "rd y (int k + 1) = Inr (y ! (k + 1))" "rd y (int k) = Inr (y ! k)"
     "rd y (int k - 1) = Inr (y ! (k - 1))"
     "rd x (int k + 1) = Inr (x ! (k + 1))" "rd x (int k) = Inr (x ! k)"
     "rd x (int k - 1) = Inr (x ! (k - 1))"
    using b2 Suc.prems assms by (auto intro!: rd_eq simp: nat_add_distrib nat_diff_distrib')
  have w: "wr y2 (int k) u = Inr (y2[k := u])" for u
    using b2 Suc.prems by (auto intro!: wr_eq simp: nat_add_distrib nat_diff_distrib')
  have e: "int k + 1 = int (Suc k)" by simp
  have step: "spline_rhs_loop x y n (int k) y2 = spline_rhs_loop x y n (int (Suc k)) (y2[k := v])"
    unfolding e[symmetric]
    by (subst spline_rhs_loop.simps) (simp only: b if_True r w bindE_Inr v_def spline_rhs_def)
  have "length x - 1 - Suc k = m" "1 \<le> Suc k" "length (y2[k := v]) = length x"
    using Suc.prems by auto
  from Suc.IH[OF this] obtain z where z: "spline_rhs_loop x y n (int (Suc k)) (y2[k := v]) = Inr z"
    "length z = length x"
    "\<forall>j. j < Suc k \<or> length x - 1 \<le> j \<longrightarrow> z ! j = (y2[k := v]) ! j"
    "\<forall>j. Suc k \<le> j \<and> j + 2 \<le> length x \<longrightarrow> z ! j = spline_rhs x y j" by blast
  have 1: "z ! j = y2 ! j" if "j < k \<or> length x - 1 \<le> j" for j
    using z(3) that b2 by (auto simp: nth_list_update)
  have 2: "z ! j = spline_rhs x y j" if "k \<le> j \<and> j + 2 \<le> length x" for j
  proof (cases "j = k")
    case True
    then show ?thesis using z(3) Suc.prems b2 by (simp add: v_def)
  next
    case False
    then show ?thesis using z(4) that by simp
  qed
  have "spline_rhs_loop x y n (int k) y2 = Inr z" using step z(1) by simp
  with z(2) 1 2 show ?case by blast
qed

lemma spline_forward_loop_ok:
  assumes "n = int (length x)"
  shows "length x - 3 - k = m \<Longrightarrow> k + 3 \<le> length x \<Longrightarrow> length y2 = length x \<Longrightarrow>
    length c + 3 = length x \<Longrightarrow> bb = thomas_pivot x k \<Longrightarrow> y2 ! (k + 1) / bb = thomas_d x y k \<Longrightarrow>
    (\<forall>j. k + 2 \<le> j \<and> j + 2 \<le> length x \<longrightarrow> y2 ! j = spline_rhs x y j) \<Longrightarrow>
    \<exists>c' z. spline_forward_loop x n (int k + 1) bb c y2 = Inr (c', z) \<and>
      length z = length x \<and> length c' = length c \<and>
      (\<forall>j. j \<le> k \<or> length x - 1 \<le> j \<longrightarrow> z ! j = y2 ! j) \<and>
      (\<forall>j. j < k \<longrightarrow> c' ! j = c ! j) \<and>
      (\<forall>j. k \<le> j \<and> j + 3 \<le> length x \<longrightarrow> z ! (j + 1) = thomas_d x y j) \<and>
      (\<forall>j. k \<le> j \<and> j + 4 \<le> length x \<longrightarrow> c' ! j = (x ! (j + 2) - x ! (j + 1)) / thomas_pivot x j)"
proof (induction m arbitrary: k y2 c bb)
  case 0
  then have k: "(int k + 1 \<le> n - 2) = True" "(int k + 1 = n - 2) = True" and lx: "length x = k + 3"
    using assms by auto
  have r: "rd y2 (int k + 1) = Inr (y2 ! (k + 1))"
    using 0 by (auto intro!: rd_eq simp: nat_add_distrib nat_diff_distrib')
  have w: "wr y2 (int k + 1) u = Inr (y2[k + 1 := u])" for u
    using 0 by (auto intro!: wr_eq simp: nat_add_distrib nat_diff_distrib')
  have res: "spline_forward_loop x n (int k + 1) bb c y2 = Inr (c, y2[k + 1 := y2 ! (k + 1) / bb])"
    by (subst spline_forward_loop.simps) (simp only: k if_True r w bindE_Inr)
  have 3: "(y2[k + 1 := y2 ! (k + 1) / bb]) ! (j + 1) = thomas_d x y j"
    if "k \<le> j \<and> j + 3 \<le> length x" for j
  proof -
    have "j = k" using that lx by simp
    then show ?thesis using 0 by simp
  qed
  have 4: "\<not> (k \<le> j \<and> j + 4 \<le> length x)" for j using lx by simp
  have 1: "(y2[k + 1 := y2 ! (k + 1) / bb]) ! j = y2 ! j" if "j \<le> k \<or> length x - 1 \<le> j" for j
    using that lx by auto
  have 5: "length (y2[k + 1 := y2 ! (k + 1) / bb]) = length x" using 0 by simp
  show ?case using res 1 3 4 5 by blast
next
  case (Suc m)
  have k: "(int k + 1 \<le> n - 2) = True" "(int k + 1 = n - 2) = False" and lx: "k + 4 \<le> length x"
    using Suc.prems assms by auto
  define a where "a = x ! (k + 2) - x ! (k + 1)"
  define y2a where "y2a = y2[k + 1 := y2 ! (k + 1) / bb]"
  define ca where "ca = c[k := a / bb]"
  define bb' where "bb' = 2 * (x ! (k + 3) - x ! (k + 1)) - a * (a / bb)"
  define y2b where "y2b = y2a[k + 2 := y2a ! (k + 2) - a * y2a ! (k + 1)]"
  have ly: "length y2a = length x" using Suc.prems by (simp add: y2a_def)
  have r3: "rd x (int k + 1 + 2) = Inr (x ! (k + 3))"
    using lx by (intro rd_eq) simp_all
  have r: "rd y2 (int k + 1) = Inr (y2 ! (k + 1))" "rd x (int k + 1 + 1) = Inr (x ! (k + 2))"
     "rd x (int k + 1) = Inr (x ! (k + 1))"
     "rd y2a (int k + 1 + 1) = Inr (y2a ! (k + 2))" "rd y2a (int k + 1) = Inr (y2a ! (k + 1))"
    using lx Suc.prems ly by (auto intro!: rd_eq simp: nat_add_distrib nat_diff_distrib')
  have rc: "rd (c[k := u]) (int k + 1 - 1) = Inr u" for u
    using lx Suc.prems rd_eq[of "int k + 1 - 1" k "c[k := u]"] by simp
  have w: "wr y2 (int k + 1) u = Inr (y2[k + 1 := u])"
    "wr c (int k + 1 - 1) u = Inr (c[k := u])"
    "wr (c[k := u']) (int k + 1 - 1) u = Inr (c[k := u])"
    "wr y2a (int k + 1 + 1) u = Inr (y2a[k + 2 := u])" for u u'
    using lx Suc.prems ly wr_eq[of "int k + 1 - 1" k "c[k := u']" u] by (auto intro!: wr_eq simp: nat_add_distrib nat_diff_distrib')
  have e: "int k + 1 + 1 = int (Suc k) + 1" by simp
  have step: "spline_forward_loop x n (int k + 1) bb c y2 = spline_forward_loop x n (int (Suc k) + 1) bb' ca y2b"
    unfolding e[symmetric]
    by (subst spline_forward_loop.simps)
       (simp only: k if_True if_False r r3 w rc bindE_Inr Let_def y2a_def[symmetric] y2b_def ca_def bb'_def a_def)
  have pre: "length x - 3 - Suc k = m" "Suc k + 3 \<le> length x" "length y2b = length x"
     "length ca + 3 = length x" using Suc.prems lx by (auto simp: y2b_def y2a_def ca_def)
  have bb': "bb' = thomas_pivot x (Suc k)" using Suc.prems by (simp add: bb'_def a_def thomas_pivot.simps)
  have ya1: "y2a ! (k + 1) = thomas_d x y k" using Suc.prems lx by (simp add: y2a_def)
  have ya2: "y2a ! (k + 2) = spline_rhs x y (k + 2)" using Suc.prems lx by (simp add: y2a_def)
  have yb: "y2b ! (k + 2) = spline_rhs x y (k + 2) - a * thomas_d x y k"
    using ly lx ya1 ya2 by (simp add: y2b_def)
  have d: "y2b ! (Suc k + 1) / bb' = thomas_d x y (Suc k)"
  proof -
    have "thomas_d x y (Suc k) = (spline_rhs x y (k + 2) - a * thomas_d x y k) / bb'"
      unfolding bb' a_def by (simp only: thomas_d.simps)
    moreover have "y2b ! (Suc k + 1) = y2b ! (k + 2)" by simp
    ultimately show ?thesis using yb by simp
  qed
  have rest: "\<forall>j. Suc k + 2 \<le> j \<and> j + 2 \<le> length x \<longrightarrow> y2b ! j = spline_rhs x y j"
    using Suc.prems by (simp add: y2b_def y2a_def)
  from Suc.IH[OF pre bb' d rest] obtain c' z where cz:
    "spline_forward_loop x n (int (Suc k) + 1) bb' ca y2b = Inr (c', z)"
    "length z = length x" "length c' = length ca"
    "\<forall>j. j \<le> Suc k \<or> length x - 1 \<le> j \<longrightarrow> z ! j = y2b ! j"
    "\<forall>j. j < Suc k \<longrightarrow> c' ! j = ca ! j"
    "\<forall>j. Suc k \<le> j \<and> j + 3 \<le> length x \<longrightarrow> z ! (j + 1) = thomas_d x y j"
    "\<forall>j. Suc k \<le> j \<and> j + 4 \<le> length x \<longrightarrow> c' ! j = (x ! (j + 2) - x ! (j + 1)) / thomas_pivot x j"
    by blast
  have 1: "z ! j = y2 ! j" if "j \<le> k \<or> length x - 1 \<le> j" for j
    using cz(4) that lx by (auto simp: y2b_def y2a_def nth_list_update)
  have 2: "c' ! j = c ! j" if "j < k" for j
    using cz(5) that by (simp add: ca_def)
  have 3: "z ! (j + 1) = thomas_d x y j" if "k \<le> j \<and> j + 3 \<le> length x" for j
  proof (cases "j = k")
    case True
    have "z ! (k + 1) = y2b ! (k + 1)" using cz(4) by simp
    also have "\<dots> = y2a ! (k + 1)" by (simp add: y2b_def)
    also have "\<dots> = thomas_d x y k" by fact
    finally show ?thesis using True by simp
  next
    case False
    then show ?thesis using cz(6) that by simp
  qed
  have 4: "c' ! j = (x ! (j + 2) - x ! (j + 1)) / thomas_pivot x j" if "k \<le> j \<and> j + 4 \<le> length x" for j
  proof (cases "j = k")
    case True
    have "c' ! k = ca ! k" using cz(5) by simp
    also have "\<dots> = a / bb" using Suc.prems lx by (simp add: ca_def)
    finally show ?thesis using True Suc.prems by (simp add: a_def)
  next
    case False
    then show ?thesis using cz(7) that by simp
  qed
  have 5: "length c' = length c" using cz(3) by (simp add: ca_def)
  have "spline_forward_loop x n (int k + 1) bb c y2 = Inr (c', z)" using step cz(1) by simp
  with cz(2) 1 2 3 4 5 show ?case by blast
qed

lemma spline_back_loop_ok:
  "k + 3 \<le> length y2 \<Longrightarrow> length c + 3 = length y2 \<Longrightarrow>
   \<exists>z. spline_back_loop (int k) c y2 = Inr z \<and> length z = length y2 \<and>
     (\<forall>j. j = 0 \<or> k < j \<longrightarrow> z ! j = y2 ! j) \<and>
     (\<forall>j. 1 \<le> j \<and> j \<le> k \<longrightarrow> z ! j = y2 ! j - c ! (j - 1) * z ! (j + 1))"
proof (induction k arbitrary: y2)
  case 0
  have "(int 0 > 0) = False" by simp
  then have "spline_back_loop (int 0) c y2 = Inr y2"
    by (subst spline_back_loop.simps) (simp only: if_False)
  then show ?case by simp
next
  case (Suc k)
  define y2a where "y2a = y2[Suc k := y2 ! Suc k - c ! k * y2 ! (k + 2)]"
  have p: "(int (Suc k) > 0) = True" by simp
  have r: "rd y2 (int (Suc k)) = Inr (y2 ! Suc k)" "rd c (int (Suc k) - 1) = Inr (c ! k)"
    "rd y2 (int (Suc k) + 1) = Inr (y2 ! (k + 2))"
    using Suc.prems by (auto intro!: rd_eq simp: nat_add_distrib nat_diff_distrib')
  have w: "wr y2 (int (Suc k)) u = Inr (y2[Suc k := u])" for u
    using Suc.prems by (auto intro!: wr_eq simp: nat_add_distrib nat_diff_distrib')
  have e: "int (Suc k) - 1 = int k" by simp
  have step: "spline_back_loop (int (Suc k)) c y2 = spline_back_loop (int k) c y2a"
    unfolding e[symmetric]
    by (subst spline_back_loop.simps) (simp only: p if_True r w bindE_Inr y2a_def)
  have "k + 3 \<le> length y2a" "length c + 3 = length y2a" using Suc.prems by (auto simp: y2a_def)
  from Suc.IH[OF this] obtain z where z: "spline_back_loop (int k) c y2a = Inr z" "length z = length y2a"
    "\<forall>j. j = 0 \<or> k < j \<longrightarrow> z ! j = y2a ! j"
    "\<forall>j. 1 \<le> j \<and> j \<le> k \<longrightarrow> z ! j = y2a ! j - c ! (j - 1) * z ! (j + 1)" by blast
  have 1: "z ! j = y2 ! j" if "j = 0 \<or> Suc k < j" for j
    using z(3) that by (auto simp: y2a_def)
  have 2: "z ! j = y2 ! j - c ! (j - 1) * z ! (j + 1)" if "1 \<le> j \<and> j \<le> Suc k" for j
  proof (cases "j = Suc k")
    case True
    have "z ! Suc k = y2a ! Suc k" "z ! (k + 2) = y2a ! (k + 2)" using z(3) by auto
    then show ?thesis using True Suc.prems by (simp add: y2a_def)
  next
    case False
    then have "j \<le> k" using that by simp
    then show ?thesis using z(4) that by (simp add: y2a_def)
  qed
  have 3: "length z = length y2" using z(2) by (simp add: y2a_def)
  have "spline_back_loop (int (Suc k)) c y2 = Inr z" using step z(1) by simp
  with 1 2 3 show ?case by blast
qed



lemma sorted_nth_less:
  "sorted_wrt (<) (x::real list) \<Longrightarrow> i < j \<Longrightarrow> j < length x \<Longrightarrow> x ! i < x ! j"
  by (simp add: sorted_wrt_iff_nth_less)

lemma thomas_pivot_gt:
  assumes "sorted_wrt (<) x"
  shows "k + 3 \<le> length x \<Longrightarrow> thomas_pivot x k > x ! (k + 2) - x ! (k + 1)"
proof (induction k)
  case 0
  have "x ! 0 < x ! 1" "x ! 1 < x ! 2" using assms 0 by (auto intro!: sorted_nth_less)
  then show ?case by (simp add: numeral_2_eq_2 thomas_pivot.simps)
next
  case (Suc k)
  define a where "a = x ! (k + 2) - x ! (k + 1)"
  define p where "p = thomas_pivot x k"
  have lt: "x ! (k + 1) < x ! (k + 2)" "x ! (k + 2) < x ! (k + 3)"
    using assms Suc.prems by (auto intro!: sorted_nth_less)
  have a: "0 < a" using lt by (simp add: a_def)
  have p: "a < p" using Suc by (simp add: a_def p_def)
  have "a / p < 1" using a p by simp
  then have "a * (a / p) < a * 1" using a by (intro mult_strict_left_mono) 
  then have "2 * (x ! (k + 3) - x ! (k + 1)) - a * (a / p) > x ! (k + 3) - x ! (k + 2)"
    using lt by (simp add: a_def)
  moreover have "thomas_pivot x (Suc k) = 2 * (x ! (k + 3) - x ! (k + 1)) - a * (a / p)"
    by (simp only: thomas_pivot.simps a_def p_def)
  moreover have "x ! (Suc k + 2) - x ! (Suc k + 1) = x ! (k + 3) - x ! (k + 2)"
    by (simp add: numeral_3_eq_3)
  ultimately show ?case by simp
qed

lemma thomas_pivot_pos:
  assumes "sorted_wrt (<) x" "k + 3 \<le> length x"
  shows "thomas_pivot x k > 0"
proof -
  have "x ! (k + 1) < x ! (k + 2)" using assms by (auto intro!: sorted_nth_less)
  with thomas_pivot_gt[OF assms] show ?thesis by simp
qed

lemma row_first:
  fixes p :: real
  assumes "p \<noteq> 0" "z1 = d - (h / p) * z2"
  shows "p * z1 + h * z2 = d * p"
  using assms by (simp add: field_simps)

lemma row_next:
  fixes p :: real
  assumes "p \<noteq> 0" "q \<noteq> 0" "q = b - h * (h / p)" "z1 = d - (h / p) * z2"
    "z2 = d' - (h' / q) * z3" "d' = (r - h * d) / q"
  shows "h * z1 + b * z2 + h' * z3 = r"
proof -
  have b: "b = q + h * (h / p)" using assms(3) by simp
  have "q * d' = r - h * d" using assms(2,6) by simp
  moreover have "q * z2 = q * d' - h' * z3" unfolding assms(5) using assms(2) by (simp add: algebra_simps)
  ultimately have "q * z2 = r - h * d - h' * z3" by simp
  then have "h * z1 + b * z2 + h' * z3 = h * z1 + (r - h * d - h' * z3) + h * (h / p) * z2 + h' * z3"
    unfolding b by (simp add: algebra_simps)
  also have "\<dots> = r" unfolding assms(4) by (simp add: algebra_simps)
  finally show ?thesis .
qed



lemma upd_zero:
  "\<forall>j<length xs. xs ! j = (0::real) \<Longrightarrow> \<forall>j<length (xs[i := 0]). xs[i := 0] ! j = 0"
  by (metis length_list_update nth_list_update_eq nth_list_update_neq)

lemma setupSpline_three:
  assumes "sorted_wrt (<) x" "t_n t = 3" "length x = 3" "av_vec (t_args t) = x" "t_vals t = y"
    "length y = 3"
  shows "\<exists>z. setupSpline t = Inr (t\<lparr>t_y2 := z\<rparr>) \<and> length z = 3 \<and> z ! 0 = 0 \<and> z ! 2 = 0 \<and>
     (x ! 1 - x ! 0) * z ! 0 + 2 * (x ! 2 - x ! 0) * z ! 1 + (x ! 2 - x ! 1) * z ! 2 = spline_rhs x y 1"
proof -
  define v where "v = 3 * ((y ! 2 - y ! 1) / (x ! 2 - x ! 1) - (y ! 1 - y ! 0) / (x ! 1 - x ! 0)) / (x ! 2 - x ! 0)"
  have lt: "x ! 0 < x ! 2" using assms by (auto intro!: sorted_nth_less)
  have r: "rd y 2 = Inr (y ! 2)" "rd y 1 = Inr (y ! 1)" "rd y 0 = Inr (y ! 0)"
    "rd x 2 = Inr (x ! 2)" "rd x 1 = Inr (x ! 1)" "rd x 0 = Inr (x ! 0)"
    using assms by (simp_all add: rd_def)
  have "setupSpline t = Inr (t\<lparr>t_y2 := [0, v, 0]\<rparr>)"
    using assms(2,4,5) r by (simp add: setupSpline_def Let_def vector_new_def wr_def numeral_3_eq_3 v_def)
  moreover have "2 * (x ! 2 - x ! 0) * v = spline_rhs x y 1"
  proof -
    define D where "D = (y ! 2 - y ! 1) / (x ! 2 - x ! 1) - (y ! 1 - y ! 0) / (x ! 1 - x ! 0)"
    have v: "v = 3 * D / (x ! 2 - x ! 0)" by (simp only: v_def D_def)
    have r1: "spline_rhs x y 1 = 6 * D" by (simp add: spline_rhs_def D_def numeral_2_eq_2)
    have "w \<noteq> 0 \<Longrightarrow> 2 * w * (3 * D / w) = 6 * D" for w :: real by simp
    from this[of "x ! 2 - x ! 0"] have "2 * (x ! 2 - x ! 0) * v = 6 * D" using lt unfolding v by simp
    then show ?thesis by (simp only: r1)
  qed
  ultimately show ?thesis by (intro exI[of _ "[0, v, 0]"]) (simp add: numeral_2_eq_2)
qed

lemma setupSpline_four:
  assumes srt: "sorted_wrt (<) x" and tn: "t_n t = int (length x)" and lx: "4 \<le> length x"
    and tx: "av_vec (t_args t) = x" and ty: "t_vals t = y" and ly: "length y = length x"
  shows "\<exists>z. setupSpline t = Inr (t\<lparr>t_y2 := z\<rparr>) \<and> length z = length x \<and> z ! 0 = 0 \<and>
     z ! (length x - 1) = 0 \<and>
     (\<forall>k. k + 3 \<le> length x \<longrightarrow>
        (x ! (k + 1) - x ! k) * z ! k + 2 * (x ! (k + 2) - x ! k) * z ! (k + 1) +
        (x ! (k + 2) - x ! (k + 1)) * z ! (k + 2) = spline_rhs x y (k + 1))"
proof -
  define n where "n = int (length x)"
  define y0 where "y0 = (replicate (length x) (0::real))[0 := 0, nat (n - 1) := 0]"
  define c0 where "c0 = replicate (length x - 3) (0::real)"
  have n3: "n \<noteq> 3" "0 \<le> n" "\<not> n < 0" "\<not> n - 3 < 0" using lx by (auto simp: n_def)
  have v1: "vector_new n = Inr (replicate (length x) 0)" by (simp add: vector_new_def n_def)
  have v2: "vector_new (n - 3) = Inr c0" using lx by (simp add: vector_new_def n_def c0_def nat_diff_distrib')
  have w1: "wr (replicate (length x) 0) 0 0 = Inr ((replicate (length x) 0)[0 := 0])"
    using lx by (auto simp: wr_def)
  have w2: "wr ((replicate (length x) 0)[0 := 0]) (n - 1) 0 = Inr y0"
    using lx by (auto simp: wr_def y0_def n_def)
  have ly0: "length y0 = length x" by (simp add: y0_def)
  have y0z: "y0 ! j = 0" if "j < length x" for j
  proof -
    have "\<forall>j<length (replicate (length x) (0::real)). replicate (length x) (0::real) ! j = 0" by simp
    from upd_zero[OF upd_zero[OF this]] show ?thesis using that unfolding y0_def by simp
  qed
  have lc0: "length c0 + 3 = length x" using lx by (simp add: c0_def)
  \<comment> \<open>first loop\<close>
  have "length x - 1 - 1 = length x - 2" "1 \<le> (1::nat)" by simp_all
  from spline_rhs_loop_ok[OF n_def ly this ly0]
  obtain z1 where z1: "spline_rhs_loop x y n 1 y0 = Inr z1" "length z1 = length x"
    "\<forall>j. j < 1 \<or> length x - 1 \<le> j \<longrightarrow> z1 ! j = y0 ! j"
    "\<forall>j. 1 \<le> j \<and> j + 2 \<le> length x \<longrightarrow> z1 ! j = spline_rhs x y j" by auto
  have rx: "rd x 2 = Inr (x ! 2)" "rd x 0 = Inr (x ! 0)" using lx by (auto simp: rd_def)
  \<comment> \<open>elimination\<close>
  define bb where "bb = 2 * (x ! 2 - x ! 0)"
  have f0: "length x - 3 - 0 = length x - 3" "0 + 3 \<le> length x" using lx by simp_all
  have f1: "bb = thomas_pivot x 0" by (simp add: bb_def thomas_pivot.simps)
  have f2: "z1 ! (0 + 1) / bb = thomas_d x y 0" using z1(4) lx by (simp add: f1 thomas_d.simps)
  have f3: "\<forall>j. 0 + 2 \<le> j \<and> j + 2 \<le> length x \<longrightarrow> z1 ! j = spline_rhs x y j" using z1(4) by simp
  from spline_forward_loop_ok[OF n_def f0 z1(2) lc0 f1 f2 f3]
  obtain c1 z2 where z2: "spline_forward_loop x n 1 bb c0 z1 = Inr (c1, z2)"
    "length z2 = length x" "length c1 = length c0"
    "\<forall>j. j \<le> 0 \<or> length x - 1 \<le> j \<longrightarrow> z2 ! j = z1 ! j"
    "\<forall>j. 0 \<le> j \<and> j + 3 \<le> length x \<longrightarrow> z2 ! (j + 1) = thomas_d x y j"
    "\<forall>j. 0 \<le> j \<and> j + 4 \<le> length x \<longrightarrow> c1 ! j = (x ! (j + 2) - x ! (j + 1)) / thomas_pivot x j"
    by auto
  \<comment> \<open>back substitution\<close>
  have b0: "length x - 3 + 3 \<le> length z2" "length c1 + 3 = length z2" using lx z2(2,3) lc0 by simp_all
  have e: "int (length x - 3) = n - 3" using lx by (simp add: n_def)
  from spline_back_loop_ok[OF b0] obtain z3 where z3: "spline_back_loop (n - 3) c1 z2 = Inr z3"
    "length z3 = length z2"
    "\<forall>j. j = 0 \<or> length x - 3 < j \<longrightarrow> z3 ! j = z2 ! j"
    "\<forall>j. 1 \<le> j \<and> j \<le> length x - 3 \<longrightarrow> z3 ! j = z2 ! j - c1 ! (j - 1) * z3 ! (j + 1)"
    unfolding e by blast
  have res: "setupSpline t = Inr (t\<lparr>t_y2 := z3\<rparr>)"
    using n3 z2(1)[unfolded bb_def]
    by (simp add: setupSpline_def Let_def tn[folded n_def] tx ty v1 v2 w1 w2 z1(1) rx z3(1))
  \<comment> \<open>the solution\<close>
  have ne: "x \<noteq> []" using lx by auto
  have "z3 ! 0 = z2 ! 0" "z2 ! 0 = z1 ! 0" "z1 ! 0 = y0 ! 0" "y0 ! 0 = 0"
    using z3(3) z2(4) z1(3) y0z[of 0] ne by simp_all
  then have e0: "z3 ! 0 = 0" by simp
  have "z3 ! (length x - 1) = z2 ! (length x - 1)" "z2 ! (length x - 1) = z1 ! (length x - 1)"
    "z1 ! (length x - 1) = y0 ! (length x - 1)" "y0 ! (length x - 1) = 0"
    using z3(3) z2(4) z1(3) y0z[of "length x - 1"] ne lx by simp_all
  then have eN: "z3 ! (length x - 1) = 0" by simp
  have zrec: "z3 ! (k + 1) = thomas_d x y k - ((x ! (k + 2) - x ! (k + 1)) / thomas_pivot x k) * z3 ! (k + 2)"
    if "k + 3 \<le> length x" for k
  proof (cases "k + 3 = length x")
    case True
    have "length x - 1 = k + 2" using True by simp
    then have "z3 ! (k + 2) = 0" using eN by simp
    moreover have "z3 ! (k + 1) = z2 ! (k + 1)" using z3(3) True by simp
    moreover have "z2 ! (k + 1) = thomas_d x y k" using z2(5) that by simp
    ultimately show ?thesis by simp
  next
    case False
    then have k4: "k + 4 \<le> length x" using that by simp
    have "z3 ! (k + 1) = z2 ! (k + 1) - c1 ! k * z3 ! (k + 2)"
      using z3(4)[rule_format, of "k + 1"] k4 by simp
    moreover have "z2 ! (k + 1) = thomas_d x y k" using z2(5) that by simp
    moreover have "c1 ! k = (x ! (k + 2) - x ! (k + 1)) / thomas_pivot x k" using z2(6) k4 by simp
    ultimately show ?thesis by simp
  qed
  have row: "(x ! (k + 1) - x ! k) * z3 ! k + 2 * (x ! (k + 2) - x ! k) * z3 ! (k + 1) +
        (x ! (k + 2) - x ! (k + 1)) * z3 ! (k + 2) = spline_rhs x y (k + 1)"
    if k: "k + 3 \<le> length x" for k
  proof (cases k)
    case 0
    have p: "thomas_pivot x 0 \<noteq> 0" using thomas_pivot_pos[OF srt, of 0] lx by simp
    have "thomas_pivot x 0 * z3 ! 1 + (x ! 2 - x ! 1) * z3 ! 2 = thomas_d x y 0 * thomas_pivot x 0"
      using row_first[OF p zrec[of 0]] lx by (simp add: numeral_2_eq_2)
    also have "\<dots> = spline_rhs x y 1" using p by (simp add: thomas_d.simps)
    finally have "2 * (x ! 2 - x ! 0) * z3 ! 1 + (x ! 2 - x ! 1) * z3 ! 2 = spline_rhs x y 1"
      by (simp only: thomas_pivot.simps)
    then show ?thesis using 0 e0 by (simp add: numeral_2_eq_2)
  next
    case (Suc m)
    have p: "thomas_pivot x m \<noteq> 0" "thomas_pivot x (Suc m) \<noteq> 0"
      using thomas_pivot_pos[OF srt, of m] thomas_pivot_pos[OF srt, of "Suc m"] k Suc by simp_all
    have q: "thomas_pivot x (Suc m) = 2 * (x ! (m + 3) - x ! (m + 1)) -
        (x ! (m + 2) - x ! (m + 1)) * ((x ! (m + 2) - x ! (m + 1)) / thomas_pivot x m)"
      by (simp only: thomas_pivot.simps)
    have d: "thomas_d x y (Suc m) =
        (spline_rhs x y (m + 2) - (x ! (m + 2) - x ! (m + 1)) * thomas_d x y m) / thomas_pivot x (Suc m)"
      by (simp only: thomas_d.simps)
    have z1': "z3 ! (m + 1) = thomas_d x y m - ((x ! (m + 2) - x ! (m + 1)) / thomas_pivot x m) * z3 ! (m + 2)"
      using zrec[of m] k Suc by simp
    have z2': "z3 ! (m + 2) = thomas_d x y (Suc m) - ((x ! (m + 3) - x ! (m + 2)) / thomas_pivot x (Suc m)) * z3 ! (m + 3)"
      using zrec[of "Suc m"] k Suc by (simp add: numeral_3_eq_3 numeral_2_eq_2)
    from row_next[OF p q z1' z2' d]
    show ?thesis using Suc by (simp add: numeral_3_eq_3 numeral_2_eq_2)
  qed
  have lz: "length z3 = length x" using z3(2) z2(2) by simp
  show ?thesis by (intro exI[of _ z3] conjI allI impI res lz e0 eN row)
qed


section \<open>Verification: Table\<close>

lemma sorted_nth_le:
  "sorted_wrt (<) (x::real list) \<Longrightarrow> i \<le> j \<Longrightarrow> j < length x \<Longrightarrow> x ! i \<le> x ! j"
  using sorted_nth_less[of x i j] by (cases "i = j") auto

lemma TableImpl_new_ok:
  assumes "sorted_wrt (<) x" "N = int (length x)" "length y = length x" "2 \<le> N" "constructible iT N"
  shows "\<exists>t. TableImpl_new x y N iT = Inr t \<and> table_ok t \<and> av_vec (t_args t) = x \<and> t_vals t = y \<and>
     t_n t = N \<and> t_iType t = iT \<and> av_lastIndex (t_args t) = 1 \<and>
     (t_interpolate t = Fn_splineInterpolate) = (iT = Table_spline) \<and>
     (t_interpolate t = Fn_linearInterpolate) = (iT = Table_linear) \<and>
     (t_interpolate t = Fn_floorInterpolate) = (iT = Table_floor) \<and>
     (t_interpolate t = Fn_ceilInterpolate) = (iT = Table_ceil) \<and>
     (t_interpolate t = Fn_nearestInterpolate) = (iT = Table_nearest) \<and>
     (iT = Table_spline \<longrightarrow> t_y2 t ! 0 = 0 \<and> t_y2 t ! (length x - 1) = 0 \<and>
       (\<forall>k. k + 3 \<le> length x \<longrightarrow>
         (x ! (k + 1) - x ! k) * t_y2 t ! k + 2 * (x ! (k + 2) - x ! k) * t_y2 t ! (k + 1) +
         (x ! (k + 2) - x ! (k + 1)) * t_y2 t ! (k + 2) = spline_rhs x y (k + 1)))"
proof -
  obtain av where av: "ArgVec_new x N = Inr av" "argvec_ok av" "av_vec av = x" "av_n av = N"
     "av_lastIndex av = 1"
    using ArgVec_new_ok[OF assms(1,2,4)] by blast
  show ?thesis
  proof (cases "iT = Table_spline")
    case False
    then have "iT \<in> {Table_linear, Table_floor, Table_ceil, Table_nearest}"
      using assms(5) by (simp add: constructible_def)
    then show ?thesis using av assms(2,3)
      by (auto simp: TableImpl_new_def table_ok_def)
  next
    case True
    then have N3: "3 \<le> N" using assms(5) by (simp add: constructible_def)
    define t0 where "t0 = \<lparr> t_iType = iT, t_args = av, t_vals = y, t_n = N, t_y2 = [],
               t_interpolate = Fn_splineInterpolate \<rparr>"
    have new: "TableImpl_new x y N iT = setupSpline t0"
      using True av(1) by (simp add: TableImpl_new_def t0_def)
    have "\<exists>z. setupSpline t0 = Inr (t0\<lparr>t_y2 := z\<rparr>) \<and> length z = length x \<and> z ! 0 = 0 \<and>
       z ! (length x - 1) = 0 \<and>
       (\<forall>k. k + 3 \<le> length x \<longrightarrow>
        (x ! (k + 1) - x ! k) * z ! k + 2 * (x ! (k + 2) - x ! k) * z ! (k + 1) +
        (x ! (k + 2) - x ! (k + 1)) * z ! (k + 2) = spline_rhs x y (k + 1))"
    proof (cases "length x = 3")
      case l3: True
      have a: "t_n t0 = 3" "av_vec (t_args t0) = x" "t_vals t0 = y" "length y = 3"
        using l3 assms(2,3) av(3) by (simp_all add: t0_def)
      from setupSpline_three[OF assms(1) a(1) l3 a(2,3,4)] obtain z where
        z: "setupSpline t0 = Inr (t0\<lparr>t_y2 := z\<rparr>)" "length z = 3" "z ! 0 = 0" "z ! 2 = 0"
         "(x ! 1 - x ! 0) * z ! 0 + 2 * (x ! 2 - x ! 0) * z ! 1 + (x ! 2 - x ! 1) * z ! 2 = spline_rhs x y 1"
        by blast
      have "(x ! (k + 1) - x ! k) * z ! k + 2 * (x ! (k + 2) - x ! k) * z ! (k + 1) +
        (x ! (k + 2) - x ! (k + 1)) * z ! (k + 2) = spline_rhs x y (k + 1)" if "k + 3 \<le> length x" for k
      proof -
        have "k = 0" using that l3 by simp
        then show ?thesis using z(5) by (simp add: numeral_2_eq_2)
      qed
      then show ?thesis using z(1-4) l3 by (intro exI[of _ z]) simp
    next
      case False
      then have l4: "4 \<le> length x" using N3 assms(2) by simp
      have a: "t_n t0 = int (length x)" "av_vec (t_args t0) = x" "t_vals t0 = y"
        using assms(2) av(3) by (simp_all add: t0_def)
      from setupSpline_four[OF assms(1) a(1) l4 a(2,3) assms(3)] show ?thesis .
    qed
    then obtain z where z: "setupSpline t0 = Inr (t0\<lparr>t_y2 := z\<rparr>)" "length z = length x" "z ! 0 = 0"
       "z ! (length x - 1) = 0"
       "\<forall>k. k + 3 \<le> length x \<longrightarrow>
        (x ! (k + 1) - x ! k) * z ! k + 2 * (x ! (k + 2) - x ! k) * z ! (k + 1) +
        (x ! (k + 2) - x ! (k + 1)) * z ! (k + 2) = spline_rhs x y (k + 1)" by blast
    show ?thesis
      using new z av True assms(2,3)
      by (intro exI[of _ "t0\<lparr>t_y2 := z\<rparr>"]) (simp add: t0_def table_ok_def)
  qed
qed

lemma interpolate_hint [simp]:
  "interpolate (t\<lparr>t_args := (t_args t)\<lparr>av_lastIndex := l\<rparr>\<rparr>) a i = interpolate t a i"
  by (simp add: interpolate_def linearInterpolate_def floorInterpolate_def ceilInterpolate_def
       nearestInterpolate_def splineInterpolate_def split: MemFn.splits)

lemma table_ok_hint:
  "table_ok t \<Longrightarrow> argvec_ok ((t_args t)\<lparr>av_lastIndex := l\<rparr>) \<Longrightarrow>
   table_ok (t\<lparr>t_args := (t_args t)\<lparr>av_lastIndex := l\<rparr>\<rparr>)"
  by (simp add: table_ok_def)

lemma interpolate_total:
  assumes "table_ok t" "1 \<le> i" "i \<le> t_n t - 1"
  shows "\<exists>v. interpolate t a i = Inr v"
proof -
  have b: "t_n t = int (length (av_vec (t_args t)))" "int (length (t_vals t)) = t_n t"
    "t_interpolate t = Fn_splineInterpolate \<Longrightarrow> length (t_y2 t) = length (t_vals t)"
    using assms(1) by (auto simp: table_ok_def argvec_ok_def)
  have r: "0 \<le> i" "0 \<le> i - 1" "i < int (length (av_vec (t_args t)))" "i - 1 < int (length (av_vec (t_args t)))"
      "i < int (length (t_vals t))" "i - 1 < int (length (t_vals t))"
      "i + 1 - 1 < int (length (t_vals t))" "0 \<le> i + 1 - 1"
      "0 \<le> i - 1 - 1 \<or> True"
    using assms(2,3) b by auto
  show ?thesis
  proof (cases "t_interpolate t")
    case Fn_linearInterpolate
    then show ?thesis using r by (simp add: interpolate_def linearInterpolate_def Let_def)
  next
    case Fn_floorInterpolate
    then show ?thesis using r by (simp add: interpolate_def floorInterpolate_def Let_def)
  next
    case Fn_ceilInterpolate
    then show ?thesis using r by (simp add: interpolate_def ceilInterpolate_def Let_def)
  next
    case Fn_nearestInterpolate
    then show ?thesis using r by (simp add: interpolate_def nearestInterpolate_def Let_def)
  next
    case Fn_splineInterpolate
    then have "i < int (length (t_y2 t))" "i - 1 < int (length (t_y2 t))" using b(3) r by auto
    then show ?thesis using r Fn_splineInterpolate
      by (simp add: interpolate_def splineInterpolate_def Let_def)
  qed
qed

lemma TableImpl_lookup_ok:
  assumes "table_ok t"
  shows "\<exists>i l. TableImpl_lookup t a =
            bindE (interpolate t a i) (\<lambda>v. Inr (v, t\<lparr>t_args := (t_args t)\<lparr>av_lastIndex := l\<rparr>\<rparr>)) \<and>
          (\<exists>v. interpolate t a i = Inr v) \<and>
          table_ok (t\<lparr>t_args := (t_args t)\<lparr>av_lastIndex := l\<rparr>\<rparr>) \<and>
          1 \<le> i \<and> i \<le> t_n t - 1 \<and>
          (a < av_vec (t_args t) ! 0 \<longrightarrow> i = 1) \<and>
          (av_vec (t_args t) ! nat (t_n t - 1) < a \<longrightarrow> i = t_n t - 1) \<and>
          (av_vec (t_args t) ! 0 \<le> a \<and> a \<le> av_vec (t_args t) ! nat (t_n t - 1) \<longrightarrow>
              av_vec (t_args t) ! nat (i - 1) \<le> a \<and> a \<le> av_vec (t_args t) ! nat i)"
proof -
  have ok: "argvec_ok (t_args t)" and n: "t_n t = av_n (t_args t)"
    using assms by (auto simp: table_ok_def)
  from upperIndex_ok[OF ok, of a] obtain i l where
    il: "upperIndex (t_args t) a = Inr (i, (t_args t)\<lparr>av_lastIndex := l\<rparr>)"
        "argvec_ok ((t_args t)\<lparr>av_lastIndex := l\<rparr>)" "1 \<le> i" "i \<le> av_n (t_args t) - 1"
        "a < av_vec (t_args t) ! 0 \<longrightarrow> i = 1 \<and> l = av_lastIndex (t_args t)"
        "av_vec (t_args t) ! nat (av_n (t_args t) - 1) < a \<longrightarrow> i = av_n (t_args t) - 1 \<and> l = av_lastIndex (t_args t)"
        "av_vec (t_args t) ! 0 \<le> a \<and> a \<le> av_vec (t_args t) ! nat (av_n (t_args t) - 1) \<longrightarrow>
              av_vec (t_args t) ! nat (i - 1) \<le> a \<and> a \<le> av_vec (t_args t) ! nat i"
    by blast
  have 1: "TableImpl_lookup t a =
            bindE (interpolate t a i) (\<lambda>v. Inr (v, t\<lparr>t_args := (t_args t)\<lparr>av_lastIndex := l\<rparr>\<rparr>))"
    using il(1) by (simp add: TableImpl_lookup_def Let_def)
  have 2: "\<exists>v. interpolate t a i = Inr v" using interpolate_total[OF assms, of i a] il(3,4) n by simp
  have 3: "table_ok (t\<lparr>t_args := (t_args t)\<lparr>av_lastIndex := l\<rparr>\<rparr>)" using table_ok_hint[OF assms il(2)] .
  show ?thesis using 1 2 3 il(3-7) n by (intro exI[of _ i] exI[of _ l]) simp
qed

lemma Table_lookups_ok:
  "table_ok t \<Longrightarrow>
   \<exists>vs l. Table_lookups t hist = Inr (vs, t\<lparr>t_args := (t_args t)\<lparr>av_lastIndex := l\<rparr>\<rparr>) \<and>
           table_ok (t\<lparr>t_args := (t_args t)\<lparr>av_lastIndex := l\<rparr>\<rparr>)"
proof (induction hist arbitrary: t)
  case Nil
  have "t\<lparr>t_args := (t_args t)\<lparr>av_lastIndex := av_lastIndex (t_args t)\<rparr>\<rparr> = t" by simp
  with Nil show ?case by (intro exI[of _ "[]"] exI[of _ "av_lastIndex (t_args t)"]) simp
next
  case (Cons a hist)
  from TableImpl_lookup_ok[OF Cons.prems, of a] obtain i l v where
    il: "TableImpl_lookup t a = Inr (v, t\<lparr>t_args := (t_args t)\<lparr>av_lastIndex := l\<rparr>\<rparr>)"
        "table_ok (t\<lparr>t_args := (t_args t)\<lparr>av_lastIndex := l\<rparr>\<rparr>)" by force
  from Cons.IH[OF il(2)] obtain vs k where
    "Table_lookups (t\<lparr>t_args := (t_args t)\<lparr>av_lastIndex := l\<rparr>\<rparr>) hist =
       Inr (vs, t\<lparr>t_args := (t_args t)\<lparr>av_lastIndex := k\<rparr>\<rparr>)"
    "table_ok (t\<lparr>t_args := (t_args t)\<lparr>av_lastIndex := k\<rparr>\<rparr>)" by auto
  then show ?case using il by (intro exI[of _ "v # vs"] exI[of _ k]) (simp add: Table_lookup_def)
qed

lemma table_after:
  assumes "sorted_wrt (<) x" "N = int (length x)" "length y = length x" "2 \<le> N" "constructible iT N"
  shows "\<exists>t0 t. Table_new x y N iT = Inr t0 \<and> table_ok t \<and> av_vec (t_args t) = x \<and> t_vals t = y \<and>
      t_n t = N \<and> t_interpolate t = t_interpolate t0 \<and> t_y2 t = t_y2 t0 \<and>
      (\<forall>a i. interpolate t a i = interpolate t0 a i) \<and>
      (\<forall>a. lookup_after x y N iT hist a = bindE (Table_lookup t a) (\<lambda>(v, t'). Inr v)) \<and>
      (\<forall>a. call_after x y N iT hist a = bindE (Table_call t a) (\<lambda>(v, t'). Inr v)) \<and>
      (\<forall>a i. interpolate_at x y N iT a i = interpolate t a i)"
proof -
  obtain t0 where t0: "TableImpl_new x y N iT = Inr t0" "table_ok t0" "av_vec (t_args t0) = x"
     "t_vals t0 = y" "t_n t0 = N"
    using TableImpl_new_ok[OF assms] by blast
  obtain vs l where l: "Table_lookups t0 hist = Inr (vs, t0\<lparr>t_args := (t_args t0)\<lparr>av_lastIndex := l\<rparr>\<rparr>)"
     "table_ok (t0\<lparr>t_args := (t_args t0)\<lparr>av_lastIndex := l\<rparr>\<rparr>)"
    using Table_lookups_ok[OF t0(2)] by blast
  show ?thesis
    using t0 l
    by (intro exI[of _ t0] exI[of _ "t0\<lparr>t_args := (t_args t0)\<lparr>av_lastIndex := l\<rparr>\<rparr>"])
       (simp add: Table_new_def lookup_after_def call_after_def interpolate_at_def)
qed



lemma node_in_bracket:
  assumes "sorted_wrt (<) (x::real list)" "1 \<le> i" "i < int (length x)" "k < length x"
    "x ! nat (i - 1) \<le> x ! k" "x ! k \<le> x ! nat i"
  shows "int k = i - 1 \<or> int k = i"
proof (rule ccontr)
  assume "\<not> (int k = i - 1 \<or> int k = i)"
  then consider "k < nat (i - 1)" | "nat i < k" using assms(2) by linarith
  then show False
  proof cases
    case 1
    have "x ! k < x ! nat (i - 1)" using assms(2,3) 1 by (intro sorted_nth_less[OF assms(1)]) auto
    with assms(5) show False by simp
  next
    case 2
    have "x ! nat i < x ! k" using assms(4) 2 by (intro sorted_nth_less[OF assms(1)]) auto
    with assms(6) show False by simp
  qed
qed

lemma strict_bracket_unique:
  assumes "sorted_wrt (<) (x::real list)" "1 \<le> i" "i < int (length x)" "1 \<le> j" "j < int (length x)"
    "x ! nat (i - 1) < a" "a < x ! nat i" "x ! nat (j - 1) \<le> a" "a \<le> x ! nat j"
  shows "j = i"
proof (rule ccontr)
  assume "j \<noteq> i"
  then consider "j \<le> i - 1" | "i \<le> j - 1" by linarith
  then show False
  proof cases
    case 1
    have "x ! nat j \<le> x ! nat (i - 1)" using assms(2,3,4) 1 by (intro sorted_nth_le[OF assms(1)]) auto
    with assms(6,9) show False by simp
  next
    case 2
    have "x ! nat i \<le> x ! nat (j - 1)" using assms(2,4,5) 2 by (intro sorted_nth_le[OF assms(1)]) auto
    with assms(7,8) show False by simp
  qed
qed

lemma interpolate_node:
  assumes ok: "table_ok t" and i: "1 \<le> i" "i \<le> t_n t - 1" and k: "k < length (av_vec (t_args t))"
    and br: "av_vec (t_args t) ! nat (i - 1) \<le> av_vec (t_args t) ! k"
            "av_vec (t_args t) ! k \<le> av_vec (t_args t) ! nat i"
  shows "interpolate t (av_vec (t_args t) ! k) i = Inr (t_vals t ! k)"
proof -
  define x where "x = av_vec (t_args t)"
  define y where "y = t_vals t"
  have b: "t_n t = int (length x)" "int (length y) = t_n t" "sorted_wrt (<) x"
    "t_interpolate t = Fn_splineInterpolate \<Longrightarrow> length (t_y2 t) = length y"
    using ok by (auto simp: table_ok_def argvec_ok_def x_def y_def)
  have lt: "x ! nat (i - 1) < x ! nat i" using i b by (intro sorted_nth_less[OF b(3)]) auto
  have r: "rd x i = Inr (x ! nat i)" "rd x (i - 1) = Inr (x ! nat (i - 1))"
    "rd y i = Inr (y ! nat i)" "rd y (i - 1) = Inr (y ! nat (i - 1))"
    "rd y (i + 1 - 1) = Inr (y ! nat i)" "rd y (i - 1 + 1) = Inr (y ! nat i)"
    using i b by (auto simp: rd_def)
  from node_in_bracket[OF b(3) i(1) _ k[folded x_def] br[folded x_def]] i b
  consider (lo) "k = nat (i - 1)" | (hi) "k = nat i" by force
  then show ?thesis
  proof cases
    case lo
    have ne: "x ! nat (i - 1) \<noteq> x ! nat i" using lt by simp
    show ?thesis
    proof (cases "t_interpolate t")
      case Fn_linearInterpolate
      then show ?thesis using r lo lt
        by (simp add: interpolate_def linearInterpolate_def Let_def x_def[symmetric] y_def[symmetric])
    next
      case Fn_floorInterpolate
      then show ?thesis using r lo ne
        by (simp add: interpolate_def floorInterpolate_def Let_def x_def[symmetric] y_def[symmetric])
    next
      case Fn_ceilInterpolate
      have "rd y (i - 1) = Inr (y ! nat (i - 1))" by fact
      then show ?thesis using r lo ne Fn_ceilInterpolate
        by (simp add: interpolate_def ceilInterpolate_def Let_def x_def[symmetric] y_def[symmetric])
    next
      case Fn_nearestInterpolate
      then show ?thesis using r lo lt
        by (simp add: interpolate_def nearestInterpolate_def Let_def x_def[symmetric] y_def[symmetric])
    next
      case Fn_splineInterpolate
      then have "rd (t_y2 t) i = Inr (t_y2 t ! nat i)" "rd (t_y2 t) (i - 1) = Inr (t_y2 t ! nat (i - 1))"
        using b i by (auto simp: rd_def)
      then show ?thesis using r lo lt Fn_splineInterpolate
        by (simp add: interpolate_def splineInterpolate_def Let_def x_def[symmetric] y_def[symmetric])
    qed
  next
    case hi
    have ne: "x ! nat i \<noteq> x ! nat (i - 1)" using lt by simp
    show ?thesis
    proof (cases "t_interpolate t")
      case Fn_linearInterpolate
      then show ?thesis using r hi lt
        by (simp add: interpolate_def linearInterpolate_def Let_def x_def[symmetric] y_def[symmetric])
    next
      case Fn_floorInterpolate
      then show ?thesis using r hi ne
        by (simp add: interpolate_def floorInterpolate_def Let_def x_def[symmetric] y_def[symmetric])
    next
      case Fn_ceilInterpolate
      then show ?thesis using r hi ne
        by (simp add: interpolate_def ceilInterpolate_def Let_def x_def[symmetric] y_def[symmetric])
    next
      case Fn_nearestInterpolate
      then show ?thesis using r hi lt
        by (simp add: interpolate_def nearestInterpolate_def Let_def x_def[symmetric] y_def[symmetric])
    next
      case Fn_splineInterpolate
      then have "rd (t_y2 t) i = Inr (t_y2 t ! nat i)" "rd (t_y2 t) (i - 1) = Inr (t_y2 t ! nat (i - 1))"
        using b i by (auto simp: rd_def)
      then show ?thesis using r hi lt Fn_splineInterpolate
        by (simp add: interpolate_def splineInterpolate_def Let_def x_def[symmetric] y_def[symmetric])
    qed
  qed
qed



lemma floor_ceil_at_node:
  assumes "sorted_wrt (<) x" "int (length y) = int (length x)" "av_vec (t_args t) = x" "t_vals t = y"
     "1 \<le> i" "i \<le> int (length x) - 1"
  shows "floorInterpolate t (x ! nat i) i = Inr (y ! nat i) \<and>
         ceilInterpolate t (x ! nat (i - 1)) i = Inr (y ! nat (i - 1))"
proof -
  have r: "rd x i = Inr (x ! nat i)" "rd x (i - 1) = Inr (x ! nat (i - 1))"
    "rd y (i + 1 - 1) = Inr (y ! nat i)" "rd y (i - 1) = Inr (y ! nat (i - 1))"
    using assms by (auto simp: rd_def)
  show ?thesis using r assms(3,4) by (simp add: floorInterpolate_def ceilInterpolate_def Let_def)
qed

text \<open>
  Claim C2.  For a 1D table over strictly increasing arguments, in any of the five modes
  (a spline table has at least three nodes, otherwise it cannot be constructed), after
  any history \<open>hist\<close> of earlier lookups, \<^verbatim>\<open>lookup(args[k])\<close> returns exactly \<open>vals[k]\<close>
  for every node index \<open>k\<close>.  In particular, for every bracket index \<open>i\<close> the floor
  formula at \<open>a = args[i]\<close> returns \<open>vals[i]\<close> (it shifts the bracket up), and the ceil
  formula at \<open>a = args[i-1]\<close> returns \<open>vals[i-1]\<close> (it shifts the bracket down).
\<close>

theorem lookup_at_node:
  assumes "sorted_wrt (<) x" "N = int (length x)" "length y = length x" "2 \<le> N"
    "constructible iT N" "k < length x"
  shows "lookup_after x y N iT hist (x ! k) = Inr (y ! k) \<and>
     (\<forall>t i. av_vec (t_args t) = x \<and> t_vals t = y \<and> 1 \<le> i \<and> i \<le> N - 1 \<longrightarrow>
        floorInterpolate t (x ! nat i) i = Inr (y ! nat i) \<and>
        ceilInterpolate t (x ! nat (i - 1)) i = Inr (y ! nat (i - 1)))"
proof -
  obtain t where t: "table_ok t" "av_vec (t_args t) = x" "t_vals t = y" "t_n t = N"
     "\<forall>a. lookup_after x y N iT hist a = bindE (Table_lookup t a) (\<lambda>(v, t'). Inr v)"
    using table_after[OF assms(1-5), of hist] by blast
  have range: "x ! 0 \<le> x ! k" "x ! k \<le> x ! nat (N - 1)"
    using assms(2,4,6) by (auto intro!: sorted_nth_le[OF assms(1)])
  from TableImpl_lookup_ok[OF t(1), of "x ! k"] obtain i l where
    il: "TableImpl_lookup t (x ! k) =
            bindE (interpolate t (x ! k) i) (\<lambda>v. Inr (v, t\<lparr>t_args := (t_args t)\<lparr>av_lastIndex := l\<rparr>\<rparr>))"
        "1 \<le> i" "i \<le> t_n t - 1"
        "x ! nat (i - 1) \<le> x ! k \<and> x ! k \<le> x ! nat i"
    using range unfolding t(2) t(4) by blast
  have "interpolate t (x ! k) i = Inr (y ! k)"
    using interpolate_node[OF t(1) il(2,3), of k] il(4) assms(6) unfolding t(2,3) by simp
  then have 1: "lookup_after x y N iT hist (x ! k) = Inr (y ! k)"
    using t(5) il(1) by (simp add: Table_lookup_def)
  have 2: "floorInterpolate t' (x ! nat i) i = Inr (y ! nat i) \<and>
        ceilInterpolate t' (x ! nat (i - 1)) i = Inr (y ! nat (i - 1))"
    if "av_vec (t_args t') = x \<and> t_vals t' = y \<and> 1 \<le> i \<and> i \<le> N - 1" for t' i
    using floor_ceil_at_node[OF assms(1), of y t' i] that assms(2,3) by simp
  show ?thesis using 1 2 by blast
qed

theorem lookup_at_node_witness:
  "lookup_after [0, 1, 2, 4] [5, 7, 6, 8] 4 Table_spline [3, 0] ([0, 1, 2, 4] ! 2) = Inr ([5, 7, 6, 8] ! 2)"
  using lookup_at_node[of "[0, 1, 2, 4]" 4 "[5, 7, 6, 8]" Table_spline 2 "[3, 0]"]
  by (simp add: constructible_def)

text \<open>
  Claim C3.  A spline table over \<open>n \<ge> 3\<close> strictly increasing arguments is constructed,
  and its array \<open>y2\<close> has the length of the arguments, \<open>y2[0] = 0\<close>, \<open>y2[n-1] = 0\<close>, and
  for every interior index \<open>1 \<le> i \<le> n-2\<close>
  \<open>(x[i]-x[i-1])*y2[i-1] + 2*(x[i+1]-x[i-1])*y2[i] + (x[i+1]-x[i])*y2[i+1] =
    6*((y[i+1]-y[i])/(x[i+1]-x[i]) - (y[i]-y[i-1])/(x[i]-x[i-1]))\<close>,
  both for the closed form of \<open>n = 3\<close> and for the Thomas algorithm of \<open>n \<ge> 4\<close>.
\<close>

theorem spline_second_derivatives:
  assumes "sorted_wrt (<) x" "N = int (length x)" "length y = length x" "3 \<le> N"
  shows "\<exists>t. Table_new x y N Table_spline = Inr t \<and> length (t_y2 t) = length x \<and>
     t_y2 t ! 0 = 0 \<and> t_y2 t ! (length x - 1) = 0 \<and>
     (\<forall>i. 1 \<le> i \<and> i + 2 \<le> length x \<longrightarrow>
        (x ! i - x ! (i - 1)) * t_y2 t ! (i - 1) + 2 * (x ! (i + 1) - x ! (i - 1)) * t_y2 t ! i +
        (x ! (i + 1) - x ! i) * t_y2 t ! (i + 1) =
        6 * ((y ! (i + 1) - y ! i) / (x ! (i + 1) - x ! i) - (y ! i - y ! (i - 1)) / (x ! i - x ! (i - 1))))"
proof -
  have c: "constructible Table_spline N" "2 \<le> N" using assms(4) by (simp_all add: constructible_def)
  from TableImpl_new_ok[OF assms(1-3) c(2,1)] obtain t where
    t: "TableImpl_new x y N Table_spline = Inr t" "table_ok t" "t_vals t = y"
       "t_interpolate t = Fn_splineInterpolate"
       "t_y2 t ! 0 = 0" "t_y2 t ! (length x - 1) = 0"
       "\<forall>k. k + 3 \<le> length x \<longrightarrow>
         (x ! (k + 1) - x ! k) * t_y2 t ! k + 2 * (x ! (k + 2) - x ! k) * t_y2 t ! (k + 1) +
         (x ! (k + 2) - x ! (k + 1)) * t_y2 t ! (k + 2) = spline_rhs x y (k + 1)"
    by auto
  have len: "length (t_y2 t) = length x" using t(2,3,4) assms(3) by (simp add: table_ok_def)
  have row: "(x ! i - x ! (i - 1)) * t_y2 t ! (i - 1) + 2 * (x ! (i + 1) - x ! (i - 1)) * t_y2 t ! i +
        (x ! (i + 1) - x ! i) * t_y2 t ! (i + 1) =
        6 * ((y ! (i + 1) - y ! i) / (x ! (i + 1) - x ! i) - (y ! i - y ! (i - 1)) / (x ! i - x ! (i - 1)))"
    if "1 \<le> i \<and> i + 2 \<le> length x" for i
  proof -
    define k where "k = i - 1"
    have k: "i = k + 1" using that by (simp add: k_def)
    have "k + 3 \<le> length x" using that k by simp
    from t(7)[rule_format, OF this] show ?thesis
      unfolding k spline_rhs_def by (simp add: numeral_2_eq_2)
  qed
  show ?thesis
    using t(1) len t(5,6) row unfolding Table_new_def by (intro exI[of _ t] conjI allI impI) 
qed

theorem spline_second_derivatives_witness:
  "\<exists>t. Table_new [0, 1, 3, 4, 6] [2, 0, 5, 1, 3] 5 Table_spline = Inr t \<and> length (t_y2 t) = 5 \<and>
     t_y2 t ! 0 = 0 \<and> t_y2 t ! 4 = 0 \<and>
     (1 - 0) * t_y2 t ! 0 + 2 * (3 - 0) * t_y2 t ! 1 + (3 - 1) * t_y2 t ! 2 =
        6 * ((5 - 0) / (3 - 1) - (0 - 2) / (1 - 0))"
proof -
  have hyps: "sorted_wrt (<) [0, 1, 3, 4, 6::real]" "(5::int) = int (length [0, 1, 3, 4, 6::real])"
    "length [2, 0, 5, 1, 3::real] = length [0, 1, 3, 4, 6::real]" "(3::int) \<le> 5" by simp_all
  from spline_second_derivatives[OF hyps]
  obtain t where t: "Table_new [0, 1, 3, 4, 6] [2, 0, 5, 1, 3] 5 Table_spline = Inr t"
    "length (t_y2 t) = length [0, 1, 3, 4, 6::real]" "t_y2 t ! 0 = 0"
    "t_y2 t ! (length [0, 1, 3, 4, 6::real] - 1) = 0"
    "\<forall>i. 1 \<le> i \<and> i + 2 \<le> length [0, 1, 3, 4, 6::real] \<longrightarrow>
        ([0, 1, 3, 4, 6] ! i - [0, 1, 3, 4, 6] ! (i - 1)) * t_y2 t ! (i - 1) +
        2 * ([0, 1, 3, 4, 6] ! (i + 1) - [0, 1, 3, 4, 6] ! (i - 1)) * t_y2 t ! i +
        ([0, 1, 3, 4, 6] ! (i + 1) - [0, 1, 3, 4, 6] ! i) * t_y2 t ! (i + 1) =
        6 * (([2, 0, 5, 1, 3] ! (i + 1) - [2, 0, 5, 1, 3] ! i) / ([0, 1, 3, 4, 6] ! (i + 1) - [0, 1, 3, 4, 6] ! i) -
             ([2, 0, 5, 1, 3] ! i - [2, 0, 5, 1, 3] ! (i - 1)) / ([0, 1, 3, 4, 6] ! i - [0, 1, 3, 4, 6] ! (i - 1)))"
    by blast
  from t(5)[rule_format, of 1] have "(1 - 0) * t_y2 t ! 0 + 2 * (3 - 0) * t_y2 t ! 1 + (3 - 1) * t_y2 t ! 2 =
        6 * ((5 - 0) / (3 - 1) - (0 - 2) / (1 - 0))" by (simp add: numeral_2_eq_2)
  moreover have "length [0, 1, 3, 4, 6::real] - 1 = 4" by simp
  then have "length (t_y2 t) = 5" "t_y2 t ! 4 = 0" using t(2,4) by (simp_all del: length_Cons list.size)
  ultimately show ?thesis using t(1,3) by blast
qed

lemma nearest_tie_1d:
  assumes "sorted_wrt (<) x" "N = int (length x)" "length y = length x" "2 \<le> N"
    "1 \<le> i" "i \<le> N - 1" "a - x ! nat (i - 1) = x ! nat i - a"
  shows "lookup_after x y N Table_nearest hist a = Inr (y ! nat i)"
proof -
  have c: "constructible Table_nearest N" by (simp add: constructible_def)
  obtain t0 t where t: "Table_new x y N Table_nearest = Inr t0" "table_ok t" "av_vec (t_args t) = x"
     "t_vals t = y" "t_n t = N" "t_interpolate t = t_interpolate t0"
     "\<forall>a. lookup_after x y N Table_nearest hist a = bindE (Table_lookup t a) (\<lambda>(v, t'). Inr v)"
    using table_after[OF assms(1-4) c, of hist] by blast
  have fn: "t_interpolate t = Fn_nearestInterpolate"
    using TableImpl_new_ok[OF assms(1-4) c] t(1,6) by (auto simp: Table_new_def)
  have lt: "x ! nat (i - 1) < x ! nat i" using assms(2,5,6) by (intro sorted_nth_less[OF assms(1)]) auto
  then have strict: "x ! nat (i - 1) < a" "a < x ! nat i" using assms(7) by auto
  have "x ! 0 \<le> x ! nat (i - 1)" "x ! nat i \<le> x ! nat (N - 1)"
    using assms(2,5,6) by (auto intro!: sorted_nth_le[OF assms(1)])
  then have range: "x ! 0 \<le> a" "a \<le> x ! nat (N - 1)" using strict by auto
  from TableImpl_lookup_ok[OF t(2), of a] obtain j l where
    jl: "TableImpl_lookup t a =
            bindE (interpolate t a j) (\<lambda>v. Inr (v, t\<lparr>t_args := (t_args t)\<lparr>av_lastIndex := l\<rparr>\<rparr>))"
        "1 \<le> j" "j \<le> t_n t - 1"
        "x ! nat (j - 1) \<le> a \<and> a \<le> x ! nat j"
    using range unfolding t(3) t(5) by blast
  have "j = i"
    using strict_bracket_unique[OF assms(1), of i j a] assms(2,5,6) jl(2,3,4) strict t(5) by simp
  have r: "rd x i = Inr (x ! nat i)" "rd x (i - 1) = Inr (x ! nat (i - 1))" "rd y i = Inr (y ! nat i)"
    using assms(2,3,5,6) by (auto simp: rd_def)
  have "interpolate t a i = Inr (y ! nat i)"
    using fn r assms(7) by (simp add: interpolate_def nearestInterpolate_def t(3,4) Let_def)
  then show ?thesis using t(7) jl(1) \<open>j = i\<close> by (simp add: Table_lookup_def)
qed

text \<open>
  Claim C5.  Constructing a table with a mode tag outside the enumeration, or in spline
  mode with fewer than three nodes, yields an error and no table.  With at least two nodes
  the error is the \<^verbatim>\<open>std::runtime_error("invalid interpolation method")\<close> of the
  \<^verbatim>\<open>switch\<close> for an unrecognized tag, and for a spline over exactly two nodes the
  \<^verbatim>\<open>std::length_error\<close> of the temporary vector \<^verbatim>\<open>c(_n-3)\<close> in \<^verbatim>\<open>setupSpline\<close>.
  With fewer than two nodes the constructor of \<open>ArgVec\<close> already reads outside the
  array.
\<close>

theorem construction_errors:
  assumes "N = int (length x)" "length y = length x"
    "(\<exists>k. iT = Table_other k) \<or> (iT = Table_spline \<and> N < 3)"
  shows "(\<exists>e. Table_new x y N iT = Inl e) \<and>
         (2 \<le> N \<longrightarrow> Table_new x y N iT =
            Inl (if iT = Table_spline then LengthError else RuntimeError ''invalid interpolation method'')) \<and>
         (N < 2 \<longrightarrow> Table_new x y N iT = Inl OutOfBounds)"
proof (cases "2 \<le> N")
  case False
  then have "length x = 0 \<or> length x = 1" using assms(1) by arith
  then have "ArgVec_new x N = Inl OutOfBounds"
  proof
    assume "length x = 0"
    then show ?thesis using assms(1) by (simp add: ArgVec_new_def rd_def)
  next
    assume l: "length x = 1"
    then have e: "equalSpaced_loop x 1 d 1 True = Inr True" for d
      by (subst equalSpaced_loop.simps) simp
    show ?thesis using assms(1) l e by (simp add: ArgVec_new_def rd_def Let_def)
  qed
  then show ?thesis using False by (simp add: Table_new_def TableImpl_new_def)
next
  case True
  have a: "(0::int) \<le> 1" "N \<le> int (length x)" "0 < length x" using assms True by auto
  obtain e where e: "equalSpaced_loop x N ((x ! nat (N - 1) - x ! 0) / of_int (N - 1)) 1 True = Inr e"
    using equalSpaced_loop_ok[OF a] by blast
  have r: "rd x (N - 1) = Inr (x ! nat (N - 1))" "rd x 0 = Inr (x ! 0)" "rd x 1 = Inr (x ! 1)"
    "rd x (N - 2) = Inr (x ! nat (N - 2))"
    using assms True by (auto simp: rd_def)
  obtain av where av: "ArgVec_new x N = Inr av" "av_vec av = x"
    using e unfolding ArgVec_new_def r bindE_Inr Let_def by simp
  from assms(3) show ?thesis
  proof
    assume "\<exists>k. iT = Table_other k"
    then show ?thesis using True av by (auto simp: Table_new_def TableImpl_new_def)
  next
    assume s: "iT = Table_spline \<and> N < 3"
    then have N2: "N = 2" using True by simp
    then have "length x = 2" "length y = 2" using assms by auto
    have "setupSpline \<lparr> t_iType = iT, t_args = av, t_vals = y, t_n = 2, t_y2 = [],
               t_interpolate = Fn_splineInterpolate \<rparr> = Inl LengthError"
      by (simp add: setupSpline_def Let_def vector_new_def wr_def numeral_2_eq_2)
    then show ?thesis using s N2 True av by (simp add: Table_new_def TableImpl_new_def)
  qed
qed

theorem construction_errors_witness:
  "Table_new [0, 1] [3, 4] 2 Table_spline = Inl LengthError \<and>
   Table_new [0, 1, 2] [3, 4, 5] 3 (Table_other 7) = Inl (RuntimeError ''invalid interpolation method'')"
  using construction_errors[of 2 "[0, 1]" "[3, 4]" Table_spline]
        construction_errors[of 3 "[0, 1, 2]" "[3, 4, 5]" "Table_other 7"]
  by simp

lemma interpolate_first_bracket:
  assumes ok: "table_ok t" and x: "av_vec (t_args t) = x" and y: "t_vals t = y" and a: "a < x ! 0"
  shows "(t_interpolate t = Fn_linearInterpolate \<longrightarrow>
            interpolate t a 1 =
              Inr (y ! 1 * (1 - (x ! 1 - a) / (x ! 1 - x ! 0)) + y ! 0 * ((x ! 1 - a) / (x ! 1 - x ! 0)))) \<and>
         (t_interpolate t = Fn_floorInterpolate \<longrightarrow> interpolate t a 1 = Inr (y ! 0)) \<and>
         (t_interpolate t = Fn_ceilInterpolate \<longrightarrow> interpolate t a 1 = Inr (y ! 1)) \<and>
         (t_interpolate t = Fn_nearestInterpolate \<longrightarrow> interpolate t a 1 = Inr (y ! 0)) \<and>
         (t_interpolate t = Fn_splineInterpolate \<longrightarrow>
            interpolate t a 1 =
              Inr (((x ! 1 - a) * y ! 0 + (a - x ! 0) * y ! 1 -
                    (1 / 6) * (x ! 1 - a) * (a - x ! 0) *
                      (((x ! 1 - a) + (x ! 1 - x ! 0)) * t_y2 t ! 0 +
                       ((a - x ! 0) + (x ! 1 - x ! 0)) * t_y2 t ! 1)) / (x ! 1 - x ! 0)))"
proof -
  have b: "2 \<le> length x" "length y = length x" "sorted_wrt (<) x"
    "t_interpolate t = Fn_splineInterpolate \<Longrightarrow> length (t_y2 t) = length y"
    using ok x y by (auto simp: table_ok_def argvec_ok_def)
  have lt: "x ! 0 < x ! 1" using b by (intro sorted_nth_less[OF b(3)]) auto
  have r: "rd x 1 = Inr (x ! 1)" "rd x (1 - 1) = Inr (x ! 0)" "rd y 1 = Inr (y ! 1)"
    "rd y (1 - 1) = Inr (y ! 0)" "rd y (1 + 1 - 1) = Inr (y ! 1)"
    using b by (auto simp: rd_def)
  have ne: "a \<noteq> x ! 1" "a \<noteq> x ! 0" "a - x ! 0 < x ! 1 - a" using a lt by auto
  have e: "x ! 1 - x ! 0 - (x ! 1 - a) = a - x ! 0" by simp
  have ry: "rd (t_y2 t) 1 = Inr (t_y2 t ! 1)" "rd (t_y2 t) (1 - 1) = Inr (t_y2 t ! 0)"
    if "t_interpolate t = Fn_splineInterpolate"
    using b(4)[OF that] b(1,2) by (auto simp: rd_def)
  show ?thesis
    unfolding interpolate_def linearInterpolate_def floorInterpolate_def ceilInterpolate_def
      nearestInterpolate_def splineInterpolate_def x y Let_def
    using r ne ry e by (auto simp: mult.commute)
qed

lemma interpolate_last_bracket:
  assumes ok: "table_ok t" and x: "av_vec (t_args t) = x" and y: "t_vals t = y"
    and N: "N = int (length x)" and a: "x ! (length x - 1) < a"
  shows "(t_interpolate t = Fn_linearInterpolate \<longrightarrow>
            interpolate t a (N - 1) =
              Inr (y ! (length x - 1) * (1 - (x ! (length x - 1) - a) / (x ! (length x - 1) - x ! (length x - 2))) +
                   y ! (length x - 2) * ((x ! (length x - 1) - a) / (x ! (length x - 1) - x ! (length x - 2))))) \<and>
         (t_interpolate t = Fn_floorInterpolate \<longrightarrow> interpolate t a (N - 1) = Inr (y ! (length x - 2))) \<and>
         (t_interpolate t = Fn_ceilInterpolate \<longrightarrow> interpolate t a (N - 1) = Inr (y ! (length x - 1))) \<and>
         (t_interpolate t = Fn_nearestInterpolate \<longrightarrow> interpolate t a (N - 1) = Inr (y ! (length x - 1))) \<and>
         (t_interpolate t = Fn_splineInterpolate \<longrightarrow>
            interpolate t a (N - 1) =
              Inr (((x ! (length x - 1) - a) * y ! (length x - 2) + (a - x ! (length x - 2)) * y ! (length x - 1) -
                    (1 / 6) * (x ! (length x - 1) - a) * (a - x ! (length x - 2)) *
                      (((x ! (length x - 1) - a) + (x ! (length x - 1) - x ! (length x - 2))) * t_y2 t ! (length x - 2) +
                       ((a - x ! (length x - 2)) + (x ! (length x - 1) - x ! (length x - 2))) * t_y2 t ! (length x - 1))) /
                   (x ! (length x - 1) - x ! (length x - 2))))"
proof -
  define p where "p = length x - 2"
  define q where "q = length x - 1"
  have b: "2 \<le> length x" "length y = length x" "sorted_wrt (<) x"
    "t_interpolate t = Fn_splineInterpolate \<Longrightarrow> length (t_y2 t) = length y"
    using ok x y by (auto simp: table_ok_def argvec_ok_def)
  have pq: "p < q" "q < length x" using b by (auto simp: p_def q_def)
  have lt: "x ! p < x ! q" using pq by (intro sorted_nth_less[OF b(3)]) auto
  have r: "rd x (N - 1) = Inr (x ! q)" "rd x (N - 1 - 1) = Inr (x ! p)" "rd y (N - 1) = Inr (y ! q)"
    "rd y (N - 1 - 1) = Inr (y ! p)" "rd y (N - 1 + 1 - 1) = Inr (y ! q)"
    using b N by (auto simp: rd_def p_def q_def nat_diff_distrib' intro!: arg_cong2[where f=nth])
  have ne: "a \<noteq> x ! q" "a \<noteq> x ! p" "\<not> a - x ! p < x ! q - a" using a lt by (auto simp: q_def)
  have e: "x ! q - x ! p - (x ! q - a) = a - x ! p" by simp
  have ry: "rd (t_y2 t) (N - 1) = Inr (t_y2 t ! q)" "rd (t_y2 t) (N - 1 - 1) = Inr (t_y2 t ! p)"
    if "t_interpolate t = Fn_splineInterpolate"
    using b(4)[OF that] b(1,2) N by (auto simp: rd_def p_def q_def nat_diff_distrib' intro!: arg_cong2[where f=nth])
  show ?thesis
    unfolding interpolate_def linearInterpolate_def floorInterpolate_def ceilInterpolate_def
      nearestInterpolate_def splineInterpolate_def x y Let_def p_def[symmetric] q_def[symmetric]
    using r ne ry e by (auto simp: mult.commute)
qed

text \<open>
  Claim C8.  For a query below the first argument \<^verbatim>\<open>upperIndex\<close> returns \<open>1\<close>, for a
  query above the last argument it returns \<open>n-1\<close>, after any history and without error.
  \<^verbatim>\<open>Table::lookup\<close> then returns the value of the mode's formula at that bracket, that
  is, it extrapolates: in linear mode the line through the two boundary nodes, in floor
  mode the lower node of the bracket, in ceil mode the upper node, in nearest mode the
  node at the boundary, in spline mode the cubic of the boundary interval with the second
  derivatives of the constructed table; whereas \<^verbatim>\<open>Table::operator()\<close> returns zero
  there.  Every lookup returns a value.
\<close>

theorem out_of_range_clamps:
  assumes "sorted_wrt (<) x" "N = int (length x)" "length y = length x" "2 \<le> N" "constructible iT N"
  shows "\<exists>t0. Table_new x y N iT = Inr t0 \<and>
         (a < x ! 0 \<longrightarrow>
            upperIndex_after x N hist a = Inr 1 \<and>
            lookup_after x y N iT hist a = interpolate_at x y N iT a 1 \<and>
            call_after x y N iT hist a = Inr 0 \<and>
            (iT = Table_linear \<longrightarrow> lookup_after x y N iT hist a =
               Inr (y ! 1 * (1 - (x ! 1 - a) / (x ! 1 - x ! 0)) + y ! 0 * ((x ! 1 - a) / (x ! 1 - x ! 0)))) \<and>
            (iT = Table_floor \<longrightarrow> lookup_after x y N iT hist a = Inr (y ! 0)) \<and>
            (iT = Table_ceil \<longrightarrow> lookup_after x y N iT hist a = Inr (y ! 1)) \<and>
            (iT = Table_nearest \<longrightarrow> lookup_after x y N iT hist a = Inr (y ! 0)) \<and>
            (iT = Table_spline \<longrightarrow> lookup_after x y N iT hist a =
               Inr (((x ! 1 - a) * y ! 0 + (a - x ! 0) * y ! 1 -
                    (1 / 6) * (x ! 1 - a) * (a - x ! 0) *
                      (((x ! 1 - a) + (x ! 1 - x ! 0)) * t_y2 t0 ! 0 +
                       ((a - x ! 0) + (x ! 1 - x ! 0)) * t_y2 t0 ! 1)) / (x ! 1 - x ! 0)))) \<and>
         (x ! nat (N - 1) < a \<longrightarrow>
            upperIndex_after x N hist a = Inr (N - 1) \<and>
            lookup_after x y N iT hist a = interpolate_at x y N iT a (N - 1) \<and>
            call_after x y N iT hist a = Inr 0 \<and>
            (iT = Table_linear \<longrightarrow> lookup_after x y N iT hist a =
               Inr (y ! nat (N - 1) * (1 - (x ! nat (N - 1) - a) / (x ! nat (N - 1) - x ! nat (N - 2))) +
                    y ! nat (N - 2) * ((x ! nat (N - 1) - a) / (x ! nat (N - 1) - x ! nat (N - 2))))) \<and>
            (iT = Table_floor \<longrightarrow> lookup_after x y N iT hist a = Inr (y ! nat (N - 2))) \<and>
            (iT = Table_ceil \<longrightarrow> lookup_after x y N iT hist a = Inr (y ! nat (N - 1))) \<and>
            (iT = Table_nearest \<longrightarrow> lookup_after x y N iT hist a = Inr (y ! nat (N - 1))) \<and>
            (iT = Table_spline \<longrightarrow> lookup_after x y N iT hist a =
               Inr (((x ! nat (N - 1) - a) * y ! nat (N - 2) + (a - x ! nat (N - 2)) * y ! nat (N - 1) -
                    (1 / 6) * (x ! nat (N - 1) - a) * (a - x ! nat (N - 2)) *
                      (((x ! nat (N - 1) - a) + (x ! nat (N - 1) - x ! nat (N - 2))) * t_y2 t0 ! nat (N - 2) +
                       ((a - x ! nat (N - 2)) + (x ! nat (N - 1) - x ! nat (N - 2))) * t_y2 t0 ! nat (N - 1))) /
                   (x ! nat (N - 1) - x ! nat (N - 2))))) \<and>
         (\<exists>v. lookup_after x y N iT hist a = Inr v)"
proof -
  obtain t0 t where t: "Table_new x y N iT = Inr t0" "table_ok t" "av_vec (t_args t) = x" "t_vals t = y"
     "t_n t = N" "t_interpolate t = t_interpolate t0" "t_y2 t = t_y2 t0"
     "\<forall>a. lookup_after x y N iT hist a = bindE (Table_lookup t a) (\<lambda>(v, t'). Inr v)"
     "\<forall>a. call_after x y N iT hist a = bindE (Table_call t a) (\<lambda>(v, t'). Inr v)"
     "\<forall>a i. interpolate_at x y N iT a i = interpolate t a i"
    using table_after[OF assms(1-5), of hist] by blast
  have fn: "(t_interpolate t = Fn_splineInterpolate) = (iT = Table_spline)"
     "(t_interpolate t = Fn_linearInterpolate) = (iT = Table_linear)"
     "(t_interpolate t = Fn_floorInterpolate) = (iT = Table_floor)"
     "(t_interpolate t = Fn_ceilInterpolate) = (iT = Table_ceil)"
     "(t_interpolate t = Fn_nearestInterpolate) = (iT = Table_nearest)"
    using TableImpl_new_ok[OF assms(1-5)] t(1,6) unfolding Table_new_def by auto
  from TableImpl_lookup_ok[OF t(2), of a] obtain i l v where
    il: "TableImpl_lookup t a =
            bindE (interpolate t a i) (\<lambda>v. Inr (v, t\<lparr>t_args := (t_args t)\<lparr>av_lastIndex := l\<rparr>\<rparr>))"
        "interpolate t a i = Inr v"
        "a < x ! 0 \<longrightarrow> i = 1" "x ! nat (N - 1) < a \<longrightarrow> i = N - 1"
    unfolding t(3) t(5) by blast
  have look: "lookup_after x y N iT hist a = interpolate t a i"
    using t(8) il(1,2) by (simp add: Table_lookup_def)
  from upperIndex_after_ok[OF assms(1,2,4), of hist a] have
    ui: "a < x ! 0 \<longrightarrow> upperIndex_after x N hist a = Inr 1"
        "x ! nat (N - 1) < a \<longrightarrow> upperIndex_after x N hist a = Inr (N - 1)" by auto
  have fb: "av_front (t_args t) = Inr (x ! 0)" "av_back (t_args t) = Inr (x ! nat (N - 1))"
    using t(2,3,5) assms(2,4) by (auto simp: av_front_def av_back_def rd_def table_ok_def)
  have lt: "x ! 0 < x ! nat (N - 1)" using assms(2,4) by (intro sorted_nth_less[OF assms(1)]) auto
  have call: "a < x ! 0 \<or> x ! nat (N - 1) < a \<Longrightarrow> call_after x y N iT hist a = Inr 0"
    using t(9) fb lt by (auto simp: Table_call_def Table_argMin_def Table_argMax_def)
  have idx: "nat (N - 1) = length x - 1" "nat (N - 2) = length x - 2" using assms(2) by auto
  have low: ?thesis if a: "a < x ! 0"
  proof -
    have i: "i = 1" using il(3) a by simp
    have n: "\<not> x ! nat (N - 1) < a" using a lt by simp
    have lk: "lookup_after x y N iT hist a = interpolate t a 1" using look i by simp
    note fbk = interpolate_first_bracket[OF t(2,3,4) a, unfolded fn t(7), folded lk]
    have at: "lookup_after x y N iT hist a = interpolate_at x y N iT a 1" using lk t(10) by simp
    have ex: "\<exists>v. lookup_after x y N iT hist a = Inr v" using look il(2) by simp
    show ?thesis
      apply (rule exI[of _ t0])
      apply (intro conjI impI)
      using t(1) n a ui(1) call at ex fbk apply blast+
      done
  qed
  have high: ?thesis if a: "x ! nat (N - 1) < a"
  proof -
    have i: "i = N - 1" using il(4) a by simp
    have a': "x ! (length x - 1) < a" using a idx by simp
    have n: "\<not> a < x ! 0" using a lt by simp
    have lk: "lookup_after x y N iT hist a = interpolate t a (N - 1)" using look i by simp
    note lbk = interpolate_last_bracket[OF t(2,3,4) assms(2) a', unfolded fn t(7), folded lk idx]
    have at: "lookup_after x y N iT hist a = interpolate_at x y N iT a (N - 1)" using lk t(10) by simp
    have ex: "\<exists>v. lookup_after x y N iT hist a = Inr v" using look il(2) by simp
    show ?thesis
      apply (rule exI[of _ t0])
      apply (intro conjI impI)
      using t(1) n a ui(2) call at ex lbk apply blast+
      done
  qed
  have mid: ?thesis if "\<not> a < x ! 0" "\<not> x ! nat (N - 1) < a"
    using that t(1) look il(2) by (intro exI[of _ t0]) simp
  show ?thesis using low high mid by blast
qed

theorem out_of_range_clamps_witness:
  "upperIndex_after [0, 1, 3] 3 [2] 5 = Inr 2 \<and>
   lookup_after [0, 1, 3] [0, 2, 3] 3 Table_linear [2] 5 = Inr 4 \<and>
   call_after [0, 1, 3] [0, 2, 3] 3 Table_linear [2] 5 = Inr 0"
proof -
  have h: "sorted_wrt (<) [0, 1, 3::real]" "(3::int) = int (length [0, 1, 3::real])"
    "length [0, 2, 3::real] = length [0, 1, 3::real]" "(2::int) \<le> 3" "constructible Table_linear 3"
    by (simp_all add: constructible_def)
  have a: "[0, 1, 3] ! nat (3 - 1) < (5::real)" by (simp add: numeral_2_eq_2)
  from out_of_range_clamps[OF h, of 5 "[2]"] a have
    "upperIndex_after [0, 1, 3] 3 [2] 5 = Inr (3 - 1) \<and>
     lookup_after [0, 1, 3] [0, 2, 3] 3 Table_linear [2] 5 =
       Inr ([0, 2, 3] ! nat (3 - 1) * (1 - ([0, 1, 3] ! nat (3 - 1) - 5) / ([0, 1, 3] ! nat (3 - 1) - [0, 1, 3] ! nat (3 - 2))) +
            [0, 2, 3] ! nat (3 - 2) * (([0, 1, 3] ! nat (3 - 1) - 5) / ([0, 1, 3] ! nat (3 - 1) - [0, 1, 3] ! nat (3 - 2)))) \<and>
     call_after [0, 1, 3] [0, 2, 3] 3 Table_linear [2] 5 = Inr 0"
    by blast
  then show ?thesis by (simp add: numeral_2_eq_2)
qed

section \<open>Verification: Table2D\<close>

lemma t2_base_with_base [simp]: "t2_base (t2_with_base t b) = b"
  by (cases t) simp_all

lemma t2_mode_with_base [simp]: "t2_mode (t2_with_base t b) = t2_mode t"
  by (cases t) simp_all

lemma T2DCRTP_new_ok:
  assumes "sorted_wrt (<) xs" "Nx = int (length xs)" "2 \<le> Nx"
    "sorted_wrt (<) ys" "Ny = int (length ys)" "2 \<le> Ny"
  shows "\<exists>b. T2DCRTP_new xs ys vals Nx Ny = Inr b \<and> argvec_ok (t2_xargs b) \<and> argvec_ok (t2_yargs b) \<and>
     av_vec (t2_xargs b) = xs \<and> av_vec (t2_yargs b) = ys \<and> t2_vals b = vals \<and> t2_ny b = Ny"
proof -
  obtain xa where xa: "ArgVec_new xs Nx = Inr xa" "argvec_ok xa" "av_vec xa = xs"
    using ArgVec_new_ok[OF assms(1-3)] by blast
  obtain ya where ya: "ArgVec_new ys Ny = Inr ya" "argvec_ok ya" "av_vec ya = ys"
    using ArgVec_new_ok[OF assms(4-6)] by blast
  show ?thesis using xa ya by (simp add: T2DCRTP_new_def)
qed

lemma makeImpl_ok:
  assumes "sorted_wrt (<) xs" "Nx = int (length xs)" "2 \<le> Nx"
    "sorted_wrt (<) ys" "Ny = int (length ys)" "2 \<le> Ny" "\<forall>k. iT \<noteq> Table2D_other k"
  shows "\<exists>t0. makeImpl xs ys vals Nx Ny iT dfdx dfdy d2fdxdy k2 = Inr t0 \<and> table2d_ok t0 \<and>
     t2_mode t0 = iT \<and> av_vec (t2_xargs (t2_base t0)) = xs \<and> av_vec (t2_yargs (t2_base t0)) = ys \<and>
     t2_vals (t2_base t0) = vals \<and> t2_ny (t2_base t0) = Ny"
proof -
  obtain b where b: "T2DCRTP_new xs ys vals Nx Ny = Inr b" "argvec_ok (t2_xargs b)"
     "argvec_ok (t2_yargs b)" "av_vec (t2_xargs b) = xs" "av_vec (t2_yargs b) = ys"
     "t2_vals b = vals" "t2_ny b = Ny"
    using T2DCRTP_new_ok[OF assms(1-6)] by blast
  show ?thesis using b assms(7)
    by (cases iT) (simp_all add: makeImpl_def table2d_ok_def)
qed

lemma t2_indices_ok:
  assumes "table2d_ok t"
  shows "\<exists>i j lx ly. t2_indices t x y =
      Inr (i, j, t2_with_base t ((t2_base t)\<lparr>t2_xargs := (t2_xargs (t2_base t))\<lparr>av_lastIndex := lx\<rparr>,
                                             t2_yargs := (t2_yargs (t2_base t))\<lparr>av_lastIndex := ly\<rparr>\<rparr>)) \<and>
      argvec_ok ((t2_xargs (t2_base t))\<lparr>av_lastIndex := lx\<rparr>) \<and>
      argvec_ok ((t2_yargs (t2_base t))\<lparr>av_lastIndex := ly\<rparr>) \<and>
      1 \<le> i \<and> i \<le> av_n (t2_xargs (t2_base t)) - 1 \<and>
      1 \<le> j \<and> j \<le> av_n (t2_yargs (t2_base t)) - 1 \<and>
      (av_vec (t2_xargs (t2_base t)) ! 0 \<le> x \<and>
       x \<le> av_vec (t2_xargs (t2_base t)) ! nat (av_n (t2_xargs (t2_base t)) - 1) \<longrightarrow>
         av_vec (t2_xargs (t2_base t)) ! nat (i - 1) \<le> x \<and> x \<le> av_vec (t2_xargs (t2_base t)) ! nat i) \<and>
      (av_vec (t2_yargs (t2_base t)) ! 0 \<le> y \<and>
       y \<le> av_vec (t2_yargs (t2_base t)) ! nat (av_n (t2_yargs (t2_base t)) - 1) \<longrightarrow>
         av_vec (t2_yargs (t2_base t)) ! nat (j - 1) \<le> y \<and> y \<le> av_vec (t2_yargs (t2_base t)) ! nat j)"
proof -
  have okx: "argvec_ok (t2_xargs (t2_base t))" and oky: "argvec_ok (t2_yargs (t2_base t))"
    using assms by (auto simp: table2d_ok_def)
  from upperIndex_ok[OF okx, of x] obtain i lx where
    i: "upperIndex (t2_xargs (t2_base t)) x = Inr (i, (t2_xargs (t2_base t))\<lparr>av_lastIndex := lx\<rparr>)"
       "argvec_ok ((t2_xargs (t2_base t))\<lparr>av_lastIndex := lx\<rparr>)"
       "1 \<le> i" "i \<le> av_n (t2_xargs (t2_base t)) - 1"
       "av_vec (t2_xargs (t2_base t)) ! 0 \<le> x \<and>
        x \<le> av_vec (t2_xargs (t2_base t)) ! nat (av_n (t2_xargs (t2_base t)) - 1) \<longrightarrow>
         av_vec (t2_xargs (t2_base t)) ! nat (i - 1) \<le> x \<and> x \<le> av_vec (t2_xargs (t2_base t)) ! nat i"
    by blast
  from upperIndex_ok[OF oky, of y] obtain j ly where
    j: "upperIndex (t2_yargs (t2_base t)) y = Inr (j, (t2_yargs (t2_base t))\<lparr>av_lastIndex := ly\<rparr>)"
       "argvec_ok ((t2_yargs (t2_base t))\<lparr>av_lastIndex := ly\<rparr>)"
       "1 \<le> j" "j \<le> av_n (t2_yargs (t2_base t)) - 1"
       "av_vec (t2_yargs (t2_base t)) ! 0 \<le> y \<and>
        y \<le> av_vec (t2_yargs (t2_base t)) ! nat (av_n (t2_yargs (t2_base t)) - 1) \<longrightarrow>
         av_vec (t2_yargs (t2_base t)) ! nat (j - 1) \<le> y \<and> y \<le> av_vec (t2_yargs (t2_base t)) ! nat j"
    by blast
  have "t2_indices t x y =
      Inr (i, j, t2_with_base t ((t2_base t)\<lparr>t2_xargs := (t2_xargs (t2_base t))\<lparr>av_lastIndex := lx\<rparr>,
                                             t2_yargs := (t2_yargs (t2_base t))\<lparr>av_lastIndex := ly\<rparr>\<rparr>))"
    using i(1) j(1) by (simp add: t2_indices_def)
  with i(2-5) j(2-5) show ?thesis by blast
qed

lemma t2_indices_preserves:
  assumes "table2d_ok t" "t2_indices t x y = Inr (i, j, t')"
  shows "table2d_ok t' \<and> t2_mode t' = t2_mode t \<and>
     av_vec (t2_xargs (t2_base t')) = av_vec (t2_xargs (t2_base t)) \<and>
     av_vec (t2_yargs (t2_base t')) = av_vec (t2_yargs (t2_base t)) \<and>
     t2_vals (t2_base t') = t2_vals (t2_base t) \<and> t2_ny (t2_base t') = t2_ny (t2_base t)"
proof -
  from t2_indices_ok[OF assms(1), of x y] obtain i' j' lx ly where
    e: "t2_indices t x y =
      Inr (i', j', t2_with_base t ((t2_base t)\<lparr>t2_xargs := (t2_xargs (t2_base t))\<lparr>av_lastIndex := lx\<rparr>,
                                             t2_yargs := (t2_yargs (t2_base t))\<lparr>av_lastIndex := ly\<rparr>\<rparr>))"
      "argvec_ok ((t2_xargs (t2_base t))\<lparr>av_lastIndex := lx\<rparr>)"
      "argvec_ok ((t2_yargs (t2_base t))\<lparr>av_lastIndex := ly\<rparr>)"
    by blast
  have "t' = t2_with_base t ((t2_base t)\<lparr>t2_xargs := (t2_xargs (t2_base t))\<lparr>av_lastIndex := lx\<rparr>,
                                             t2_yargs := (t2_yargs (t2_base t))\<lparr>av_lastIndex := ly\<rparr>\<rparr>)"
    using e(1) assms(2) by simp
  then show ?thesis using e(2,3) by (simp add: table2d_ok_def)
qed

lemma Table2D_lookup_preserves:
  assumes "table2d_ok t" "Table2D_lookup t x y = Inr (v, t')"
  shows "table2d_ok t' \<and> t2_mode t' = t2_mode t \<and>
     av_vec (t2_xargs (t2_base t')) = av_vec (t2_xargs (t2_base t)) \<and>
     av_vec (t2_yargs (t2_base t')) = av_vec (t2_yargs (t2_base t)) \<and>
     t2_vals (t2_base t') = t2_vals (t2_base t) \<and> t2_ny (t2_base t') = t2_ny (t2_base t)"
proof -
  obtain i j t1 where a: "t2_indices t x y = Inr (i, j, t1)"
    using t2_indices_ok[OF assms(1), of x y] by blast
  have "Table2D_lookup t x y = bindE (interp t1 x y i j) (\<lambda>v. Inr (v, t1))"
    using a by (simp add: Table2D_lookup_def T2DCRTP_lookup_def)
  then have "t' = t1" using assms(2)
    by (cases "interp t1 x y i j") simp_all
  with t2_indices_preserves[OF assms(1) a] show ?thesis by simp
qed

lemma Table2D_lookups_preserves:
  "table2d_ok t \<Longrightarrow> Table2D_lookups t hist = Inr (vs, t') \<Longrightarrow>
   table2d_ok t' \<and> t2_mode t' = t2_mode t \<and>
     av_vec (t2_xargs (t2_base t')) = av_vec (t2_xargs (t2_base t)) \<and>
     av_vec (t2_yargs (t2_base t')) = av_vec (t2_yargs (t2_base t)) \<and>
     t2_vals (t2_base t') = t2_vals (t2_base t) \<and> t2_ny (t2_base t') = t2_ny (t2_base t)"
proof (induction hist arbitrary: t vs)
  case Nil
  then show ?case by simp
next
  case (Cons p hist)
  obtain v t1 where s1: "Table2D_lookup t (fst p) (snd p) = Inr (v, t1)"
    using Cons.prems(2) by (cases "Table2D_lookup t (fst p) (snd p)") auto
  obtain ws t2 where s2: "Table2D_lookups t1 hist = Inr (ws, t2)"
    using Cons.prems(2) s1 by (cases "Table2D_lookups t1 hist") auto
  have "t2 = t'" using Cons.prems(2) s1 s2 by simp
  note s = s1 s2[unfolded this]
  from Table2D_lookup_preserves[OF Cons.prems(1) s(1)] Cons.IH[OF _ s(2)]
  show ?case by simp
qed

lemma grad_unsupported:
  assumes "t2_mode t \<in> {Table2D_floor, Table2D_ceil, Table2D_nearest, Table2D_interpolant2d}"
  shows "\<exists>e. grad t x y i j = Inl e \<and> gradient_not_implemented e"
proof (cases t)
  case (T2DFloor b)
  then show ?thesis unfolding gradient_not_implemented_def
    by (intro exI conjI) (simp, rule disjI1, rule refl)
next
  case (T2DCeil b)
  then show ?thesis unfolding gradient_not_implemented_def
    by (intro exI conjI) (simp, rule disjI2, rule disjI1, rule refl)
next
  case (T2DNearest b)
  then show ?thesis unfolding gradient_not_implemented_def
    by (intro exI conjI) (simp, rule disjI2, rule disjI2, rule disjI1, rule refl)
next
  case (T2DInterpolant2D b nx k)
  then show ?thesis unfolding gradient_not_implemented_def
    by (intro exI conjI) (simp, rule disjI2, rule disjI2, rule disjI2, rule refl)
next
  case (T2DLinear b)
  then show ?thesis using assms by simp
next
  case (T2DCubic b d1 d2 d3)
  then show ?thesis using assms by simp
next
  case (T2DCubicConvolution b)
  then show ?thesis using assms by simp
qed

lemma gradient_unsupported:
  assumes "table2d_ok t"
    "t2_mode t \<in> {Table2D_floor, Table2D_ceil, Table2D_nearest, Table2D_interpolant2d}"
  shows "\<exists>e. Table2D_gradient t x y = Inl e \<and> gradient_not_implemented e"
proof -
  obtain i j t1 where a: "t2_indices t x y = Inr (i, j, t1)"
    using t2_indices_ok[OF assms(1), of x y] by blast
  have "t2_mode t1 = t2_mode t" using t2_indices_preserves[OF assms(1) a] by simp
  then have "t2_mode t1 \<in> {Table2D_floor, Table2D_ceil, Table2D_nearest, Table2D_interpolant2d}"
    using assms(2) by simp
  from grad_unsupported[OF this, of x y i j] obtain e where
    e: "grad t1 x y i j = Inl e" "gradient_not_implemented e" by blast
  have "Table2D_gradient t x y = Inl e"
    using a e(1) by (simp add: Table2D_gradient_def T2DCRTP_gradient_def)
  with e(2) show ?thesis by blast
qed

lemma gradientMany_unsupported:
  assumes "table2d_ok t"
    "t2_mode t \<in> {Table2D_floor, Table2D_ceil, Table2D_nearest, Table2D_interpolant2d}"
    "1 \<le> N" "N \<le> int (length xvec)" "N \<le> int (length yvec)"
  shows "\<exists>e. Table2D_gradientMany t xvec yvec dfdxvec dfdyvec N = Inl e \<and> gradient_not_implemented e"
proof -
  from gradient_unsupported[OF assms(1,2), of "xvec ! 0" "yvec ! 0"] obtain e where
    m: "Table2D_gradient t (xvec ! 0) (yvec ! 0) = Inl e" "gradient_not_implemented e"
    by blast
  have r: "rd xvec 0 = Inr (xvec ! 0)" "rd yvec 0 = Inr (yvec ! 0)" using assms(3-5) by (auto simp: rd_def)
  have "(0 < N) = True" using assms(3) by simp
  then have "Table2D_gradientMany t xvec yvec dfdxvec dfdyvec N = Inl e"
    unfolding Table2D_gradientMany_def
    by (subst T2DCRTP_gradientMany.simps)
       (simp only: if_True r bindE_Inr bindE_Inl m(1)[unfolded Table2D_gradient_def])
  with m(2) show ?thesis by blast
qed

lemma gradientMany_empty:
  "N \<le> 0 \<Longrightarrow> Table2D_gradientMany t xvec yvec dfdxvec dfdyvec N = Inr (dfdxvec, dfdyvec, t)"
  unfolding Table2D_gradientMany_def by (subst T2DCRTP_gradientMany.simps) simp


lemma no_throw_simps [simp]:
  "no_throw (Inr v)" "no_throw (Inl OutOfBounds)"
  by (simp_all add: no_throw_def)

lemma no_throw_rd [simp]: "no_throw (rd xs i)"
  by (simp add: rd_def)

lemma no_throw_bindE: "no_throw m \<Longrightarrow> (\<And>v. no_throw (f v)) \<Longrightarrow> no_throw (bindE m f)"
  by (cases m) (auto simp: no_throw_def bindE_def)

lemma no_throw_stencil_x [simp]: "no_throw (stencil_x g ny i c)"
  unfolding stencil_x_def by (intro no_throw_bindE no_throw_rd no_throw_simps)

lemma no_throw_stencil_y [simp]: "no_throw (stencil_y g ny r j)"
  unfolding stencil_y_def by (intro no_throw_bindE no_throw_rd no_throw_simps)

lemma no_throw_case_prod: "(\<And>a b. no_throw (f a b)) \<Longrightarrow> no_throw (case_prod f p)"
  by (cases p) simp

lemma no_throw_cc_grad: "no_throw (T2DCubicConvolution_grad b x y i j)"
  unfolding T2DCubicConvolution_grad_def Let_def
  by (intro no_throw_bindE no_throw_case_prod no_throw_rd no_throw_stencil_x no_throw_stencil_y
        no_throw_simps)

lemma idx_bound:
  fixes a b nx ny :: int
  assumes "0 \<le> a" "a < nx" "0 \<le> b" "b < ny"
  shows "0 \<le> a * ny + b \<and> a * ny + b < nx * ny"
proof -
  have "a * ny + b < a * ny + ny" using assms by simp
  also have "\<dots> = (a + 1) * ny" by (simp add: algebra_simps)
  also have "\<dots> \<le> nx * ny" using assms by (intro mult_right_mono) auto
  finally have "a * ny + b < nx * ny" .
  moreover have "0 \<le> a * ny" using assms by simp
  ultimately show ?thesis using assms by simp
qed

lemma rd_grid:
  assumes "int (length g) = nx * ny" "0 \<le> a" "a < nx" "0 \<le> b" "b < ny"
  shows "rd g (a * ny + b) = Inr (g ! nat (a * ny + b))"
  using idx_bound[OF assms(2-5)] assms(1) by (simp add: rd_def)

text \<open>
  \<^verbatim>\<open>oneDSpline\<close> and \<^verbatim>\<open>oneDGrad\<close> of \<^verbatim>\<open>T2DCubicConvolution\<close>, written in Horner form
  in the source, are the kernel sum and the sum of the kernel's derivative over the four
  nodes at the offsets \<open>-1, 0, 1, 2\<close>, for a position \<open>s\<close> inside the bracket.
\<close>

lemma oneDSpline_kernel:
  assumes "0 \<le> s" "s \<le> 1"
  shows "T2DCubicConvolution_oneDSpline s a b c d =
     a * spec_kernel (s + 1) + b * spec_kernel s + c * spec_kernel (s - 1) + d * spec_kernel (s - 2)"
proof -
  consider "s = 0" | "s = 1" | "0 < s" "s < 1" using assms by fastforce
  then show ?thesis
  proof cases
    case 1 then show ?thesis
      by (simp add: T2DCubicConvolution_oneDSpline_def spec_kernel_def Let_def)
  next
    case 2 then show ?thesis
      by (simp add: T2DCubicConvolution_oneDSpline_def spec_kernel_def Let_def field_simps)
  next
    case 3
    have k: "spec_kernel (s + 1) = - 1 / 2 * (s + 1) ^ 3 + 5 / 2 * (s + 1) ^ 2 - 4 * (s + 1) + 2"
      "spec_kernel s = 3 / 2 * s ^ 3 - 5 / 2 * s ^ 2 + 1"
      "spec_kernel (s - 1) = 3 / 2 * (1 - s) ^ 3 - 5 / 2 * (1 - s) ^ 2 + 1"
      "spec_kernel (s - 2) = - 1 / 2 * (2 - s) ^ 3 + 5 / 2 * (2 - s) ^ 2 - 4 * (2 - s) + 2"
      using 3 by (simp_all add: spec_kernel_def abs_if)
    show ?thesis unfolding k T2DCubicConvolution_oneDSpline_def Let_def
      by (simp add: power2_eq_square power3_eq_cube field_simps)
  qed
qed

lemma oneDGrad_kernel:
  assumes "0 \<le> s" "s \<le> 1"
  shows "T2DCubicConvolution_oneDGrad s a b c d =
     a * spec_kernel_deriv (s + 1) + b * spec_kernel_deriv s +
     c * spec_kernel_deriv (s - 1) + d * spec_kernel_deriv (s - 2)"
proof -
  consider "s = 0" | "s = 1" | "0 < s" "s < 1" using assms by fastforce
  then show ?thesis
  proof cases
    case 1 then show ?thesis
      by (simp add: T2DCubicConvolution_oneDGrad_def spec_kernel_deriv_def Let_def)
  next
    case 2 then show ?thesis
      by (simp add: T2DCubicConvolution_oneDGrad_def spec_kernel_deriv_def Let_def field_simps)
  next
    case 3
    have k: "spec_kernel_deriv (s + 1) = - 3 / 2 * (s + 1) ^ 2 + 5 * (s + 1) - 4"
      "spec_kernel_deriv s = 9 / 2 * s ^ 2 - 5 * s"
      "spec_kernel_deriv (s - 1) = - (9 / 2 * (1 - s) ^ 2 - 5 * (1 - s))"
      "spec_kernel_deriv (s - 2) = - (- 3 / 2 * (2 - s) ^ 2 + 5 * (2 - s) - 4)"
      using 3 by (simp_all add: spec_kernel_deriv_def abs_if sgn_if)
    show ?thesis unfolding k T2DCubicConvolution_oneDGrad_def Let_def
      by (simp add: power2_eq_square field_simps)
  qed
qed

text \<open>Away from its five joints, \<open>spec_kernel_deriv\<close> is the derivative of \<open>spec_kernel\<close>.\<close>

lemma spec_kernel_has_derivative:
  assumes "s \<noteq> 0" "\<bar>s\<bar> \<noteq> 1" "\<bar>s\<bar> \<noteq> 2"
  shows "(spec_kernel has_real_derivative spec_kernel_deriv s) (at s)"
proof -
  let ?P1 = "\<lambda>u::real. 3 / 2 * u ^ 3 - 5 / 2 * u ^ 2 + 1"
  let ?P2 = "\<lambda>u::real. - 1 / 2 * u ^ 3 + 5 / 2 * u ^ 2 - 4 * u + 2"
  let ?N1 = "\<lambda>u::real. 3 / 2 * (- u) ^ 3 - 5 / 2 * (- u) ^ 2 + 1"
  let ?N2 = "\<lambda>u::real. - 1 / 2 * (- u) ^ 3 + 5 / 2 * (- u) ^ 2 - 4 * (- u) + 2"
  have tr: "(spec_kernel has_real_derivative D) (at s)"
    if "(f has_real_derivative D) (at s)" "open S" "s \<in> S" "\<And>u. u \<in> S \<Longrightarrow> f u = spec_kernel u" for f D S
    using has_field_derivative_transform_within_open[OF that] .
  have "s < - 2 \<or> (- 2 < s \<and> s < - 1) \<or> (- 1 < s \<and> s < 0) \<or> (0 < s \<and> s < 1) \<or>
        (1 < s \<and> s < 2) \<or> 2 < s"
    using assms by argo
  then consider "s < - 2" | "- 2 < s" "s < - 1" | "- 1 < s" "s < 0" | "0 < s" "s < 1" | "1 < s" "s < 2" | "2 < s"
    by blast
  then show ?thesis
  proof cases
    case 1
    show ?thesis
      by (rule tr[of "\<lambda>u. 0" _ "{..< - 2}"]) (use 1 in \<open>auto simp: spec_kernel_def spec_kernel_deriv_def\<close>)
  next
    case 2
    have "(?N2 has_real_derivative spec_kernel_deriv s) (at s)"
      using 2 by (auto intro!: derivative_eq_intros simp: spec_kernel_deriv_def power2_eq_square algebra_simps)
    then show ?thesis
      by (rule tr[of _ _ "{- 2 <..< - 1}"]) (use 2 in \<open>auto simp: spec_kernel_def\<close>)
  next
    case 3
    have "(?N1 has_real_derivative spec_kernel_deriv s) (at s)"
      using 3 by (auto intro!: derivative_eq_intros simp: spec_kernel_deriv_def power2_eq_square algebra_simps)
    then show ?thesis
      by (rule tr[of _ _ "{- 1 <..< 0}"]) (use 3 in \<open>auto simp: spec_kernel_def\<close>)
  next
    case 4
    have "(?P1 has_real_derivative spec_kernel_deriv s) (at s)"
      using 4 by (auto intro!: derivative_eq_intros simp: spec_kernel_deriv_def power2_eq_square algebra_simps)
    then show ?thesis
      by (rule tr[of _ _ "{0 <..< 1}"]) (use 4 in \<open>auto simp: spec_kernel_def\<close>)
  next
    case 5
    have "(?P2 has_real_derivative spec_kernel_deriv s) (at s)"
      using 5 by (auto intro!: derivative_eq_intros simp: spec_kernel_deriv_def power2_eq_square algebra_simps)
    then show ?thesis
      by (rule tr[of _ _ "{1 <..< 2}"]) (use 5 in \<open>auto simp: spec_kernel_def\<close>)
  next
    case 6
    show ?thesis
      by (rule tr[of "\<lambda>u. 0" _ "{2 <..}"]) (use 6 in \<open>auto simp: spec_kernel_def spec_kernel_deriv_def\<close>)
  qed
qed

lemma stencil_x_val:
  assumes "int (length g) = nx * ny" "2 \<le> i" "i \<le> nx - 2" "0 \<le> c" "c < ny"
  shows "stencil_x g ny i c =
    Inr (spec_grid g ny (i - 2) c, spec_grid g ny (i - 1) c, spec_grid g ny i c, spec_grid g ny (i + 1) c)"
proof -
  have "rd g ((i - 2) * ny + c) = Inr (g ! nat ((i - 2) * ny + c))"
       "rd g ((i - 1) * ny + c) = Inr (g ! nat ((i - 1) * ny + c))"
       "rd g ((i + 0) * ny + c) = Inr (g ! nat ((i + 0) * ny + c))"
       "rd g ((i + 1) * ny + c) = Inr (g ! nat ((i + 1) * ny + c))"
    using assms by (auto intro!: rd_grid[OF assms(1)])
  then show ?thesis unfolding stencil_x_def spec_grid_def by (simp only: bindE_Inr) simp
qed

lemma stencil_y_val:
  assumes "int (length g) = nx * ny" "0 \<le> r" "r < nx" "2 \<le> j" "j \<le> ny - 2"
  shows "stencil_y g ny r j =
    Inr (spec_grid g ny r (j - 2), spec_grid g ny r (j - 1), spec_grid g ny r j, spec_grid g ny r (j + 1))"
proof -
  have e: "r * ny + j - 2 = r * ny + (j - 2)" "r * ny + j - 1 = r * ny + (j - 1)"
     "r * ny + j + 0 = r * ny + (j + 0)" "r * ny + j + 1 = r * ny + (j + 1)" by simp_all
  have "rd g (r * ny + (j - 2)) = Inr (g ! nat (r * ny + (j - 2)))"
       "rd g (r * ny + (j - 1)) = Inr (g ! nat (r * ny + (j - 1)))"
       "rd g (r * ny + (j + 0)) = Inr (g ! nat (r * ny + (j + 0)))"
       "rd g (r * ny + (j + 1)) = Inr (g ! nat (r * ny + (j + 1)))"
    using assms by (auto intro!: rd_grid[OF assms(1)])
  then show ?thesis unfolding stencil_y_def spec_grid_def e by (simp only: bindE_Inr) simp
qed

lemma unit_fraction:
  fixes lo hi z :: real
  assumes "lo < hi" "lo \<le> z" "z \<le> hi"
  shows "0 \<le> (z - lo) / (hi - lo)" "(z - lo) / (hi - lo) \<le> 1"
  using assms by (simp_all add: field_simps)

lemma cc_grad_val:
  assumes "int (length (t2_vals b)) = nx * t2_ny b"
    "nx = int (length (av_vec (t2_xargs b)))" "t2_ny b = int (length (av_vec (t2_yargs b)))"
    "2 \<le> i" "i \<le> nx - 2" "2 \<le> j" "j \<le> t2_ny b - 2"
    "sorted_wrt (<) (av_vec (t2_xargs b))" "sorted_wrt (<) (av_vec (t2_yargs b))"
    "av_vec (t2_xargs b) ! nat (i - 1) \<le> x" "x \<le> av_vec (t2_xargs b) ! nat i"
    "av_vec (t2_yargs b) ! nat (j - 1) \<le> y" "y \<le> av_vec (t2_yargs b) ! nat j"
  shows "T2DCubicConvolution_grad b x y i j =
     Inr (spec_gradient (av_vec (t2_xargs b)) (av_vec (t2_yargs b)) (t2_vals b) (t2_ny b) x y i j)"
proof -
  let ?xs = "av_vec (t2_xargs b)" and ?ys = "av_vec (t2_yargs b)"
  have r: "rd ?xs i = Inr (?xs ! nat i)" "rd ?xs (i - 1) = Inr (?xs ! nat (i - 1))"
    "rd ?ys j = Inr (?ys ! nat j)" "rd ?ys (j - 1) = Inr (?ys ! nat (j - 1))"
    using assms(2-7) by (auto simp: rd_def)
  have c: "0 \<le> j - 2" "j - 2 < t2_ny b" "0 \<le> j - 1" "j - 1 < t2_ny b"
     "0 \<le> j + 0" "j + 0 < t2_ny b" "0 \<le> j + 1" "j + 1 < t2_ny b"
     "0 \<le> i - 2" "i - 2 < nx" "0 \<le> i - 1" "i - 1 < nx"
     "0 \<le> i + 0" "i + 0 < nx" "0 \<le> i + 1" "i + 1 < nx"
    using assms(4-7) by simp_all
  note sx = stencil_x_val[OF assms(1,4,5) c(1,2)] stencil_x_val[OF assms(1,4,5) c(3,4)]
    stencil_x_val[OF assms(1,4,5) c(5,6)] stencil_x_val[OF assms(1,4,5) c(7,8)]
  note sy = stencil_y_val[OF assms(1) c(9,10) assms(6,7)] stencil_y_val[OF assms(1) c(11,12) assms(6,7)]
    stencil_y_val[OF assms(1) c(13,14) assms(6,7)] stencil_y_val[OF assms(1) c(15,16) assms(6,7)]
  have ltx: "?xs ! nat (i - 1) < ?xs ! nat i"
    using assms(2,4,5) by (intro sorted_nth_less[OF assms(8)]) auto
  have lty: "?ys ! nat (j - 1) < ?ys ! nat j"
    using assms(3,6,7) by (intro sorted_nth_less[OF assms(9)]) auto
  note ux = unit_fraction[OF ltx assms(10,11)]
  note uy = unit_fraction[OF lty assms(12,13)]
  show ?thesis
    unfolding T2DCubicConvolution_grad_def Let_def r sx sy bindE_Inr spec_gradient_def
      oneDSpline_kernel[OF ux] oneDSpline_kernel[OF uy] oneDGrad_kernel[OF ux] oneDGrad_kernel[OF uy]
    by (simp add: algebra_simps)
qed


lemma table2d_after:
  assumes "sorted_wrt (<) xs" "Nx = int (length xs)" "2 \<le> Nx"
    "sorted_wrt (<) ys" "Ny = int (length ys)" "2 \<le> Ny" "\<forall>k. iT \<noteq> Table2D_other k"
  shows "\<exists>t0. makeImpl xs ys vals Nx Ny iT dfdx dfdy d2fdxdy k2 = Inr t0 \<and>
     (\<forall>hist vs t. Table2D_lookups t0 hist = Inr (vs, t) \<longrightarrow>
        table2d_ok t \<and> t2_mode t = iT \<and> av_vec (t2_xargs (t2_base t)) = xs \<and>
        av_vec (t2_yargs (t2_base t)) = ys \<and> t2_vals (t2_base t) = vals \<and> t2_ny (t2_base t) = Ny)"
proof -
  obtain t0 where t0: "makeImpl xs ys vals Nx Ny iT dfdx dfdy d2fdxdy k2 = Inr t0" "table2d_ok t0"
     "t2_mode t0 = iT" "av_vec (t2_xargs (t2_base t0)) = xs" "av_vec (t2_yargs (t2_base t0)) = ys"
     "t2_vals (t2_base t0) = vals" "t2_ny (t2_base t0) = Ny"
    using makeImpl_ok[OF assms] by blast
  have "table2d_ok t \<and> t2_mode t = iT \<and> av_vec (t2_xargs (t2_base t)) = xs \<and>
        av_vec (t2_yargs (t2_base t)) = ys \<and> t2_vals (t2_base t) = vals \<and> t2_ny (t2_base t) = Ny"
    if "Table2D_lookups t0 hist = Inr (vs, t)" for hist vs t
    using Table2D_lookups_preserves[OF t0(2) that] t0(3-7) by simp
  with t0(1) show ?thesis by blast
qed

text \<open>
  Claim C6, as amended.  A \<^verbatim>\<open>Table2D\<close> in floor, ceil, nearest or interpolant2d mode is
  constructed, and in every state reached by lookups every call of \<^verbatim>\<open>gradient\<close>, at
  every query point, throws the \<^verbatim>\<open>"gradient not implemented ..."\<close> error of its
  class; so does every call of \<^verbatim>\<open>gradientMany\<close> with at least one query point
  (\<open>N \<ge> 1\<close>, the input arrays holding \<open>N\<close> elements).
\<close>

theorem gradient_unsupported_modes:
  assumes "sorted_wrt (<) xs" "Nx = int (length xs)" "2 \<le> Nx"
    "sorted_wrt (<) ys" "Ny = int (length ys)" "2 \<le> Ny"
    "iT \<in> {Table2D_floor, Table2D_ceil, Table2D_nearest, Table2D_interpolant2d}"
  shows "\<exists>t0. makeImpl xs ys vals Nx Ny iT dfdx dfdy d2fdxdy k2 = Inr t0 \<and>
     (\<forall>hist vs t. Table2D_lookups t0 hist = Inr (vs, t) \<longrightarrow>
        (\<forall>x y. \<exists>e. Table2D_gradient t x y = Inl e \<and> gradient_not_implemented e) \<and>
        (\<forall>xvec yvec gx gy N. 1 \<le> N \<and> N \<le> int (length xvec) \<and> N \<le> int (length yvec) \<longrightarrow>
           (\<exists>e. Table2D_gradientMany t xvec yvec gx gy N = Inl e \<and> gradient_not_implemented e)))"
proof -
  have no: "\<forall>k. iT \<noteq> Table2D_other k" using assms(7) by auto
  from table2d_after[OF assms(1-6) no, of vals dfdx dfdy d2fdxdy k2] obtain t0 where
    t0: "makeImpl xs ys vals Nx Ny iT dfdx dfdy d2fdxdy k2 = Inr t0"
    "\<And>hist vs t. Table2D_lookups t0 hist = Inr (vs, t) \<Longrightarrow> table2d_ok t \<and> t2_mode t = iT"
    by blast
  have "(\<forall>x y. \<exists>e. Table2D_gradient t x y = Inl e \<and> gradient_not_implemented e) \<and>
        (\<forall>xvec yvec gx gy N. 1 \<le> N \<and> N \<le> int (length xvec) \<and> N \<le> int (length yvec) \<longrightarrow>
           (\<exists>e. Table2D_gradientMany t xvec yvec gx gy N = Inl e \<and> gradient_not_implemented e))"
    if h: "Table2D_lookups t0 hist = Inr (vs, t)" for hist vs t
  proof -
    have ok: "table2d_ok t" and
      m: "t2_mode t \<in> {Table2D_floor, Table2D_ceil, Table2D_nearest, Table2D_interpolant2d}"
      using t0(2)[OF h] assms(7) by simp_all
    show ?thesis
      using gradient_unsupported[OF ok m] gradientMany_unsupported[OF ok m] by blast
  qed
  with t0(1) show ?thesis by blast
qed

theorem gradient_unsupported_modes_witness:
  "\<exists>e. gradient_after [0, 1] [0, 1] [1, 2, 3, 4] 2 2 Table2D_nearest [] [] []
          \<lparr>isExactAtNodes = False, xrange = 0, xval = (*)\<rparr> [] (1 / 3) (1 / 4) = Inl e \<and>
        gradient_not_implemented e"
proof -
  have hyps: "sorted_wrt (<) [0, 1::real]" "(2::int) = int (length [0, 1::real])" "(2::int) \<le> 2"
    "Table2D_nearest \<in> {Table2D_floor, Table2D_ceil, Table2D_nearest, Table2D_interpolant2d}"
    by simp_all
  from gradient_unsupported_modes[OF hyps(1-3) hyps(1-3) hyps(4),
      of "[1, 2, 3, 4]" "[]" "[]" "[]" "\<lparr>isExactAtNodes = False, xrange = 0, xval = (*)\<rparr>"]
  obtain t0 where t0: "makeImpl [0, 1] [0, 1] [1, 2, 3, 4] 2 2 Table2D_nearest [] [] []
          \<lparr>isExactAtNodes = False, xrange = 0, xval = (*)\<rparr> = Inr t0"
    "\<forall>hist vs t. Table2D_lookups t0 hist = Inr (vs, t) \<longrightarrow>
        (\<forall>x y. \<exists>e. Table2D_gradient t x y = Inl e \<and> gradient_not_implemented e) \<and>
        (\<forall>xvec yvec gx gy N. 1 \<le> N \<and> N \<le> int (length xvec) \<and> N \<le> int (length yvec) \<longrightarrow>
           (\<exists>e. Table2D_gradientMany t xvec yvec gx gy N = Inl e \<and> gradient_not_implemented e))"
    by blast
  have "Table2D_lookups t0 [] = Inr ([], t0)" by simp
  with t0(2) obtain e where "Table2D_gradient t0 (1 / 3) (1 / 4) = Inl e" "gradient_not_implemented e"
    by blast
  then show ?thesis using t0(1) by (intro exI[of _ e]) (simp add: gradient_after_def)
qed

text \<open>
  Claim C6 as stated fails for \<^verbatim>\<open>gradientMany\<close> on an empty batch: with \<open>N = 0\<close> the
  loop body never runs and the call returns normally, here on a floor table.
\<close>

theorem gradientMany_empty_counterexample:
  "gradientMany_after [0, 1] [0, 1] [1, 2, 3, 4] 2 2 Table2D_floor [] [] []
      \<lparr>isExactAtNodes = False, xrange = 0, xval = (*)\<rparr> [] [] [] [] [] 0 = Inr ([], [])"
  by (simp add: gradientMany_after_def makeImpl_def T2DCRTP_new_def ArgVec_new_def rd_def
        equalSpaced_loop.simps tolerance_def Let_def gradientMany_empty)

lemma t2_cc_cases:
  assumes "t2_mode t = Table2D_cubicConvolve"
  obtains b where "t = T2DCubicConvolution b"
  using assms by (cases t) simp_all

lemma interior_bracket:
  fixes zs :: "real list"
  assumes s: "sorted_wrt (<) zs" "n = int (length zs)" "2 \<le> n" "1 \<le> p" "p \<le> n - 1"
    "zs ! 0 \<le> z \<and> z \<le> zs ! nat (n - 1) \<longrightarrow> zs ! nat (p - 1) \<le> z \<and> z \<le> zs ! nat p"
    "zs ! 1 < z" "z < zs ! (length zs - 2)"
  shows "2 \<le> p \<and> p \<le> n - 2 \<and> zs ! nat (p - 1) \<le> z \<and> z \<le> zs ! nat p"
proof -
  have "zs ! 0 \<le> zs ! 1" using s(2,3) by (intro sorted_nth_le[OF s(1)]) auto
  moreover have "zs ! (length zs - 2) \<le> zs ! nat (n - 1)"
    using s(2,3) by (intro sorted_nth_le[OF s(1)]) auto
  ultimately have br: "zs ! nat (p - 1) \<le> z" "z \<le> zs ! nat p" using s(6,7,8) by auto
  have "p \<noteq> 1" using br(2) s(7) by auto
  moreover have "\<not> n - 2 \<le> p - 1"
  proof
    assume "n - 2 \<le> p - 1"
    then have "zs ! (length zs - 2) \<le> zs ! nat (p - 1)"
      using s(2,3,5) by (intro sorted_nth_le[OF s(1)]) auto
    with br(1) s(8) show False by simp
  qed
  ultimately show ?thesis using s(4) br by auto
qed

text \<open>
  Claim C7, as amended.  A \<^verbatim>\<open>Table2D\<close> in cubic-convolution mode over an \<open>Nx \<times> Ny\<close>
  grid is constructed, and in every state reached by lookups a call of \<^verbatim>\<open>gradient\<close>
  throws no exception.  For a query point strictly between the second and the
  second-to-last node on both axes (the 4 x 4 stencil lies inside the grid) it returns
  the pair \<open>(dfdx, dfdy)\<close> of a bracket \<open>(i, j)\<close> that contains the point, computed from
  the derivative of the cubic-convolution kernel: \<open>dfdx\<close> is the sum over the 4 x 4 stencil
  of \<open>vals * W' (dx - p) * W (dy - q)\<close> divided by \<open>x[i] - x[i-1]\<close>, and \<open>dfdy\<close> the sum of
  \<open>vals * W (dx - p) * W' (dy - q)\<close> divided by \<open>y[j] - y[j-1]\<close>, with \<open>W\<close> the
  Catmull-Rom kernel and \<open>W'\<close> its derivative.
\<close>

theorem cubicConvolution_gradient:
  assumes "sorted_wrt (<) xs" "Nx = int (length xs)" "2 \<le> Nx"
    "sorted_wrt (<) ys" "Ny = int (length ys)" "2 \<le> Ny" "int (length vals) = Nx * Ny"
  shows "\<exists>t0. makeImpl xs ys vals Nx Ny Table2D_cubicConvolve dfdx dfdy d2fdxdy k2 = Inr t0 \<and>
     (\<forall>hist vs t x y. Table2D_lookups t0 hist = Inr (vs, t) \<longrightarrow>
        no_throw (Table2D_gradient t x y) \<and>
        (xs ! 1 < x \<and> x < xs ! (length xs - 2) \<and> ys ! 1 < y \<and> y < ys ! (length ys - 2) \<longrightarrow>
           (\<exists>i j t'. 2 \<le> i \<and> i \<le> Nx - 2 \<and> 2 \<le> j \<and> j \<le> Ny - 2 \<and>
              xs ! nat (i - 1) \<le> x \<and> x \<le> xs ! nat i \<and>
              ys ! nat (j - 1) \<le> y \<and> y \<le> ys ! nat j \<and>
              Table2D_gradient t x y = Inr (spec_gradient xs ys vals Ny x y i j, t'))))"
proof -
  have no: "\<forall>k. Table2D_cubicConvolve \<noteq> Table2D_other k" by simp
  from table2d_after[OF assms(1-6) no, of vals dfdx dfdy d2fdxdy k2] obtain t0 where
    t0: "makeImpl xs ys vals Nx Ny Table2D_cubicConvolve dfdx dfdy d2fdxdy k2 = Inr t0"
    "\<And>hist vs t. Table2D_lookups t0 hist = Inr (vs, t) \<Longrightarrow>
        table2d_ok t \<and> t2_mode t = Table2D_cubicConvolve \<and> av_vec (t2_xargs (t2_base t)) = xs \<and>
        av_vec (t2_yargs (t2_base t)) = ys \<and> t2_vals (t2_base t) = vals \<and> t2_ny (t2_base t) = Ny"
    by blast
  have "no_throw (Table2D_gradient t x y) \<and>
        (xs ! 1 < x \<and> x < xs ! (length xs - 2) \<and> ys ! 1 < y \<and> y < ys ! (length ys - 2) \<longrightarrow>
           (\<exists>i j t'. 2 \<le> i \<and> i \<le> Nx - 2 \<and> 2 \<le> j \<and> j \<le> Ny - 2 \<and>
              xs ! nat (i - 1) \<le> x \<and> x \<le> xs ! nat i \<and>
              ys ! nat (j - 1) \<le> y \<and> y \<le> ys ! nat j \<and>
              Table2D_gradient t x y = Inr (spec_gradient xs ys vals Ny x y i j, t')))"
    if h: "Table2D_lookups t0 hist = Inr (vs, t)" for hist vs t x y
  proof -
    have t: "table2d_ok t" "t2_mode t = Table2D_cubicConvolve" "av_vec (t2_xargs (t2_base t)) = xs"
        "av_vec (t2_yargs (t2_base t)) = ys" "t2_vals (t2_base t) = vals" "t2_ny (t2_base t) = Ny"
      using t0(2)[OF h] by simp_all
    have nx: "av_n (t2_xargs (t2_base t)) = Nx" "av_n (t2_yargs (t2_base t)) = Ny"
      using t(1,3,4) assms(2,5) by (auto simp: table2d_ok_def argvec_ok_def)
    from t2_indices_ok[OF t(1), of x y] obtain i j t1 where
      ij: "t2_indices t x y = Inr (i, j, t1)" "1 \<le> i" "i \<le> Nx - 1" "1 \<le> j" "j \<le> Ny - 1"
        "xs ! 0 \<le> x \<and> x \<le> xs ! nat (Nx - 1) \<longrightarrow> xs ! nat (i - 1) \<le> x \<and> x \<le> xs ! nat i"
        "ys ! 0 \<le> y \<and> y \<le> ys ! nat (Ny - 1) \<longrightarrow> ys ! nat (j - 1) \<le> y \<and> y \<le> ys ! nat j"
      unfolding t(3,4) nx by blast
    have t1: "t2_mode t1 = Table2D_cubicConvolve" "av_vec (t2_xargs (t2_base t1)) = xs"
        "av_vec (t2_yargs (t2_base t1)) = ys" "t2_vals (t2_base t1) = vals" "t2_ny (t2_base t1) = Ny"
      using t2_indices_preserves[OF t(1) ij(1)] t(2-6) by simp_all
    obtain b where b: "t1 = T2DCubicConvolution b" using t2_cc_cases[OF t1(1)] by blast
    have g: "Table2D_gradient t x y = bindE (T2DCubicConvolution_grad b x y i j) (\<lambda>g. Inr (g, t1))"
      using ij(1) b by (simp add: Table2D_gradient_def T2DCRTP_gradient_def)
    have 1: "no_throw (Table2D_gradient t x y)"
      unfolding g by (intro no_throw_bindE no_throw_cc_grad no_throw_simps)
    have 2: "\<exists>i j t'. 2 \<le> i \<and> i \<le> Nx - 2 \<and> 2 \<le> j \<and> j \<le> Ny - 2 \<and>
              xs ! nat (i - 1) \<le> x \<and> x \<le> xs ! nat i \<and>
              ys ! nat (j - 1) \<le> y \<and> y \<le> ys ! nat j \<and>
              Table2D_gradient t x y = Inr (spec_gradient xs ys vals Ny x y i j, t')"
      if r: "xs ! 1 < x \<and> x < xs ! (length xs - 2) \<and> ys ! 1 < y \<and> y < ys ! (length ys - 2)"
    proof -
      have i2: "2 \<le> i" "i \<le> Nx - 2" "xs ! nat (i - 1) \<le> x" "x \<le> xs ! nat i"
        using interior_bracket[OF assms(1-3) ij(2,3,6)] r by simp_all
      have j2: "2 \<le> j" "j \<le> Ny - 2" "ys ! nat (j - 1) \<le> y" "y \<le> ys ! nat j"
        using interior_bracket[OF assms(4-6) ij(4,5,7)] r by simp_all
      have bb: "t2_vals b = vals" "t2_ny b = Ny" "av_vec (t2_xargs b) = xs" "av_vec (t2_yargs b) = ys"
        using t1 b by simp_all
      have "T2DCubicConvolution_grad b x y i j = Inr (spec_gradient xs ys vals Ny x y i j)"
        using cc_grad_val[of b Nx i j x y] i2 j2 assms(1,2,4,5,7) bb by simp
      then have "Table2D_gradient t x y = Inr (spec_gradient xs ys vals Ny x y i j, t1)"
        unfolding g by simp
      with i2 j2 show ?thesis by blast
    qed
    show ?thesis using 1 2 by blast
  qed
  with t0(1) show ?thesis by blast
qed

text \<open>
  Claim C7 as stated fails: on a 4 x 4 grid with \<open>vals[ix][iy] = ix\<close> the gradient in
  cubic-convolution mode at \<open>(3/2, 3/2)\<close> is returned, and it is \<open>(1, 0)\<close>.
\<close>

theorem cubicConvolution_gradient_counterexample:
  "gradient_after [0, 1, 2, 3] [0, 1, 2, 3] [0, 0, 0, 0, 1, 1, 1, 1, 2, 2, 2, 2, 3, 3, 3, 3] 4 4
     Table2D_cubicConvolve [] [] [] \<lparr>isExactAtNodes = False, xrange = 0, xval = (*)\<rparr> []
     (3 / 2) (3 / 2) = Inr (1, 0)"
  by (simp add: gradient_after_def makeImpl_def T2DCRTP_new_def ArgVec_new_def rd_def
        equalSpaced_loop.simps tolerance_def Let_def Table2D_gradient_def T2DCRTP_gradient_def
        t2_indices_def upperIndex_def av_front_def av_back_def scan_up.simps scan_down.simps
        T2DCubicConvolution_grad_def stencil_x_def stencil_y_def
        T2DCubicConvolution_oneDSpline_def T2DCubicConvolution_oneDGrad_def)


theorem cubicConvolution_gradient_witness:
  "gradient_after [0, 1, 2, 4] [0, 1, 3, 4] [0, 0, 0, 0, 1, 1, 1, 1, 2, 2, 2, 2, 4, 4, 4, 4] 4 4
     Table2D_cubicConvolve [] [] [] \<lparr>isExactAtNodes = False, xrange = 0, xval = (*)\<rparr> []
     (3 / 2) 2 =
   Inr (spec_gradient [0, 1, 2, 4] [0, 1, 3, 4] [0, 0, 0, 0, 1, 1, 1, 1, 2, 2, 2, 2, 4, 4, 4, 4] 4
          (3 / 2) 2 2 2) \<and>
   spec_gradient [0, 1, 2, 4] [0, 1, 3, 4] [0, 0, 0, 0, 1, 1, 1, 1, 2, 2, 2, 2, 4, 4, 4, 4] 4
          (3 / 2) 2 2 2 = (7 / 8, 0)"
proof -
  have hx: "sorted_wrt (<) [0, 1, 2, 4::real]" "(4::int) = int (length [0, 1, 2, 4::real])" "(2::int) \<le> 4"
    and hy: "sorted_wrt (<) [0, 1, 3, 4::real]" "(4::int) = int (length [0, 1, 3, 4::real])" "(2::int) \<le> 4"
    and hv: "int (length [0, 0, 0, 0, 1, 1, 1, 1, 2, 2, 2, 2, 4, 4, 4, 4::real]) = 4 * 4"
    by simp_all
  from cubicConvolution_gradient[OF hx hy hv,
      of "[]" "[]" "[]" "\<lparr>isExactAtNodes = False, xrange = 0, xval = (*)\<rparr>"]
  obtain t0 where t0: "makeImpl [0, 1, 2, 4] [0, 1, 3, 4] [0, 0, 0, 0, 1, 1, 1, 1, 2, 2, 2, 2, 4, 4, 4, 4] 4 4
       Table2D_cubicConvolve [] [] [] \<lparr>isExactAtNodes = False, xrange = 0, xval = (*)\<rparr> = Inr t0"
    "\<forall>hist vs t x y. Table2D_lookups t0 hist = Inr (vs, t) \<longrightarrow>
        no_throw (Table2D_gradient t x y) \<and>
        ([0, 1, 2, 4] ! 1 < x \<and> x < [0, 1, 2, 4] ! (length [0, 1, 2, 4::real] - 2) \<and>
         [0, 1, 3, 4] ! 1 < y \<and> y < [0, 1, 3, 4] ! (length [0, 1, 3, 4::real] - 2) \<longrightarrow>
           (\<exists>i j t'. 2 \<le> i \<and> i \<le> 4 - 2 \<and> 2 \<le> j \<and> j \<le> 4 - 2 \<and>
              [0, 1, 2, 4] ! nat (i - 1) \<le> x \<and> x \<le> [0, 1, 2, 4] ! nat i \<and>
              [0, 1, 3, 4] ! nat (j - 1) \<le> y \<and> y \<le> [0, 1, 3, 4] ! nat j \<and>
              Table2D_gradient t x y =
                Inr (spec_gradient [0, 1, 2, 4] [0, 1, 3, 4]
                       [0, 0, 0, 0, 1, 1, 1, 1, 2, 2, 2, 2, 4, 4, 4, 4] 4 x y i j, t')))"
    by blast
  have l: "Table2D_lookups t0 [] = Inr ([], t0)" by simp
  have r: "[0, 1, 2, 4] ! 1 < (3 / 2::real) \<and> (3 / 2::real) < [0, 1, 2, 4] ! (length [0, 1, 2, 4::real] - 2) \<and>
         [0, 1, 3, 4] ! 1 < (2::real) \<and> (2::real) < [0, 1, 3, 4] ! (length [0, 1, 3, 4::real] - 2)"
    by (simp add: numeral_2_eq_2)
  from t0(2)[rule_format, OF l, THEN conjunct2, rule_format, OF r]
  obtain i j t' where g: "2 \<le> i" "i \<le> 4 - 2" "2 \<le> j" "j \<le> 4 - 2"
    "Table2D_gradient t0 (3 / 2) 2 =
       Inr (spec_gradient [0, 1, 2, 4] [0, 1, 3, 4]
              [0, 0, 0, 0, 1, 1, 1, 1, 2, 2, 2, 2, 4, 4, 4, 4] 4 (3 / 2) 2 i j, t')" by blast
  have ij: "i = 2" "j = 2" using g(1-4) by simp_all
  have v: "spec_gradient [0, 1, 2, 4] [0, 1, 3, 4] [0, 0, 0, 0, 1, 1, 1, 1, 2, 2, 2, 2, 4, 4, 4, 4] 4
          (3 / 2) 2 2 2 = (7 / 8, 0)"
    by (simp add: spec_gradient_def spec_grid_def spec_kernel_def spec_kernel_deriv_def Let_def
          numeral_2_eq_2 numeral_3_eq_3 power2_eq_square power3_eq_cube)
  show ?thesis using g(5) t0(1) v unfolding ij by (simp add: gradient_after_def)
qed

lemma t2_k_cases:
  assumes "t2_mode t = Table2D_interpolant2d"
  obtains b nx k where "t = T2DInterpolant2D b nx k"
  using assms by (cases t) simp_all

lemma makeImpl_interpolant2d:
  assumes "makeImpl xs ys vals Nx Ny Table2D_interpolant2d dfdx dfdy d2fdxdy k = Inr t0"
  shows "\<exists>b. t0 = T2DInterpolant2D b Nx k"
proof (cases "T2DCRTP_new xs ys vals Nx Ny")
  case (Inl e)
  then show ?thesis using assms by (simp add: makeImpl_def)
next
  case (Inr b)
  then show ?thesis using assms by (auto simp: makeImpl_def)
qed

lemma t2_indices_shape:
  assumes "table2d_ok t" "t2_indices t x y = Inr (i, j, t')" "t = T2DInterpolant2D b nx k"
  shows "\<exists>b'. t' = T2DInterpolant2D b' nx k"
proof -
  from t2_indices_ok[OF assms(1), of x y] assms(2) obtain bb where "t' = t2_with_base t bb" by auto
  then show ?thesis using assms(3) by simp
qed

lemma Table2D_lookups_shape:
  "table2d_ok t \<Longrightarrow> Table2D_lookups t hist = Inr (vs, t') \<Longrightarrow> t = T2DInterpolant2D b nx k \<Longrightarrow>
   \<exists>b'. t' = T2DInterpolant2D b' nx k"
proof (induction hist arbitrary: t vs b)
  case Nil
  then show ?case by auto
next
  case (Cons p hist)
  obtain v t1 where s1: "Table2D_lookup t (fst p) (snd p) = Inr (v, t1)"
    using Cons.prems(2) by (cases "Table2D_lookup t (fst p) (snd p)") auto
  obtain ws t2 where s2: "Table2D_lookups t1 hist = Inr (ws, t2)"
    using Cons.prems(2) s1 by (cases "Table2D_lookups t1 hist") auto
  have e: "t2 = t'" using Cons.prems(2) s1 s2 by simp
  obtain i j t3 where a: "t2_indices t (fst p) (snd p) = Inr (i, j, t3)"
    using t2_indices_ok[OF Cons.prems(1), of "fst p" "snd p"] by blast
  have "Table2D_lookup t (fst p) (snd p) = bindE (interp t3 (fst p) (snd p) i j) (\<lambda>v. Inr (v, t3))"
    using a by (simp add: Table2D_lookup_def T2DCRTP_lookup_def)
  then have "t1 = t3" using s1 by (cases "interp t3 (fst p) (snd p) i j") simp_all
  then obtain b1 where b1: "t1 = T2DInterpolant2D b1 nx k"
    using t2_indices_shape[OF Cons.prems(1) a Cons.prems(3)] by blast
  have ok1: "table2d_ok t1" using Table2D_lookup_preserves[OF Cons.prems(1) s1] by simp
  from Cons.IH[OF ok1 s2[unfolded e] b1] show ?case .
qed

text \<open>
  Claim C10.  In interpolant2d mode, for a table in any state reached by lookups and a
  query \<open>(x, y)\<close> whose bracket indices are \<open>i\<close> and \<open>j\<close>: when the kernel's index window
  after clamping to the grid is empty along x (\<open>ixMin > ixMax\<close>) or along y
  (\<open>iyMin > iyMax\<close>), \<^verbatim>\<open>lookup\<close> returns exactly \<open>0\<close>.  This happens inside the domain:
  on the unit square with all four values \<open>1\<close> and a kernel of range \<open>1/4\<close> the lookup at
  the centre \<open>(1/2, 1/2)\<close> is \<open>0\<close>.
\<close>

theorem kernel_empty_window_zero:
  assumes "sorted_wrt (<) xs" "Nx = int (length xs)" "2 \<le> Nx"
    "sorted_wrt (<) ys" "Ny = int (length ys)" "2 \<le> Ny"
    "makeImpl xs ys vals Nx Ny Table2D_interpolant2d dfdx dfdy d2fdxdy k = Inr t0"
    "Table2D_lookups t0 hist = Inr (vs, t)"
    "t2_indices t x y = Inr (i, j, t')"
    "dx = (x - xs ! nat (i - 1)) / (xs ! nat i - xs ! nat (i - 1))"
    "dy = (y - ys ! nat (j - 1)) / (ys ! nat j - ys ! nat (j - 1))"
    "fst (interp2d_window k dx i Nx) > snd (interp2d_window k dx i Nx) \<or>
     fst (interp2d_window k dy j Ny) > snd (interp2d_window k dy j Ny)"
  shows "Table2D_lookup t x y = Inr (0, t') \<and>
     lookup2_after [0, 1] [0, 1] [1, 1, 1, 1] 2 2 Table2D_interpolant2d [] [] []
        \<lparr>isExactAtNodes = False, xrange = 1 / 4, xval = (*)\<rparr> [] (1 / 2) (1 / 2) = Inr 0"
proof -
  have no: "\<forall>m. Table2D_interpolant2d \<noteq> Table2D_other m" by simp
  from makeImpl_ok[OF assms(1-6) no, of vals dfdx dfdy d2fdxdy k] assms(7)
  have t0: "table2d_ok t0" "av_vec (t2_xargs (t2_base t0)) = xs" "av_vec (t2_yargs (t2_base t0)) = ys"
    "t2_ny (t2_base t0) = Ny" by auto
  obtain b0 where b0: "t0 = T2DInterpolant2D b0 Nx k" using makeImpl_interpolant2d[OF assms(7)] by blast
  have t: "table2d_ok t" "av_vec (t2_xargs (t2_base t)) = xs" "av_vec (t2_yargs (t2_base t)) = ys"
    "t2_ny (t2_base t) = Ny"
    using Table2D_lookups_preserves[OF t0(1) assms(8)] t0(2-4) by simp_all
  obtain b1 where b1: "t = T2DInterpolant2D b1 Nx k"
    using Table2D_lookups_shape[OF t0(1) assms(8) b0] by blast
  obtain b where b: "t' = T2DInterpolant2D b Nx k"
    using t2_indices_shape[OF t(1) assms(9) b1] by blast
  have t': "av_vec (t2_xargs b) = xs" "av_vec (t2_yargs b) = ys" "t2_ny b = Ny"
    using t2_indices_preserves[OF t(1) assms(9)] t(2-4) b by simp_all
  have nx: "av_n (t2_xargs (t2_base t)) = Nx" "av_n (t2_yargs (t2_base t)) = Ny"
    using t(1,2,3) assms(2,5) by (auto simp: table2d_ok_def argvec_ok_def)
  from t2_indices_ok[OF t(1), of x y] assms(9)
  have ij: "1 \<le> i" "i \<le> Nx - 1" "1 \<le> j" "j \<le> Ny - 1" unfolding nx by auto
  have r: "rd xs i = Inr (xs ! nat i)" "rd xs (i - 1) = Inr (xs ! nat (i - 1))"
     "rd ys j = Inr (ys ! nat j)" "rd ys (j - 1) = Inr (ys ! nat (j - 1))"
    using ij assms(2,5) by (auto simp: rd_def)
  obtain ixMin ixMax where wx: "interp2d_window k dx i Nx = (ixMin, ixMax)" by (cases "interp2d_window k dx i Nx")
  obtain iyMin iyMax where wy: "interp2d_window k dy j Ny = (iyMin, iyMax)" by (cases "interp2d_window k dy j Ny")
  have empty: "ixMin > ixMax \<or> iyMin > iyMax" using assms(12) wx wy by simp
  have "T2DInterpolant2D_interp b Nx k x y i j = Inr 0"
    unfolding T2DInterpolant2D_interp_def t' r bindE_Inr Let_def assms(10)[symmetric] assms(11)[symmetric] wx wy
    using empty by auto
  then have 1: "Table2D_lookup t x y = Inr (0, t')"
    using assms(9) b by (simp add: Table2D_lookup_def T2DCRTP_lookup_def)
  have 2: "lookup2_after [0, 1] [0, 1] [1, 1, 1, 1] 2 2 Table2D_interpolant2d [] [] []
        \<lparr>isExactAtNodes = False, xrange = 1 / 4, xval = (*)\<rparr> [] (1 / 2) (1 / 2) = Inr 0"
    by (simp add: lookup2_after_def makeImpl_def T2DCRTP_new_def ArgVec_new_def rd_def
        equalSpaced_loop.simps tolerance_def Let_def Table2D_lookup_def T2DCRTP_lookup_def
        t2_indices_def upperIndex_def av_front_def av_back_def scan_up.simps scan_down.simps
        T2DInterpolant2D_interp_def interp2d_window_def dbl_epsilon_def)
  show ?thesis using 1 2 by blast
qed


theorem kernel_empty_window_zero_witness:
  "lookup2_after [0, 1, 3] [0, 2, 3] [1, 2, 3, 4, 5, 6, 7, 8, 9] 3 3 Table2D_interpolant2d [] [] []
        \<lparr>isExactAtNodes = True, xrange = 1 / 3, xval = (*)\<rparr> [] 2 1 = Inr 0"
proof -
  define K where "K = \<lparr>isExactAtNodes = True, xrange = 1 / 3, xval = ((*) :: real \<Rightarrow> real \<Rightarrow> real)\<rparr>"
  define t0 where "t0 = (case makeImpl [0, 1, 3] [0, 2, 3] [1, 2, 3, 4, 5, 6, 7, 8, 9] 3 3
       Table2D_interpolant2d [] [] [] K of Inr t \<Rightarrow> t)"
  define t' where "t' = (case t2_indices t0 2 1 of Inr (i, j, t) \<Rightarrow> t)"
  have hx: "sorted_wrt (<) [0, 1, 3::real]" "(3::int) = int (length [0, 1, 3::real])" "(2::int) \<le> 3"
    and hy: "sorted_wrt (<) [0, 2, 3::real]" "(3::int) = int (length [0, 2, 3::real])" "(2::int) \<le> 3"
    by simp_all
  have mk: "makeImpl [0, 1, 3] [0, 2, 3] [1, 2, 3, 4, 5, 6, 7, 8, 9] 3 3
       Table2D_interpolant2d [] [] [] K = Inr t0"
    by (simp add: t0_def makeImpl_def T2DCRTP_new_def ArgVec_new_def rd_def
        equalSpaced_loop.simps tolerance_def Let_def)
  have lk: "Table2D_lookups t0 [] = Inr ([], t0)" by simp
  have idx: "t2_indices t0 2 1 = Inr (2, 1, t')"
    by (simp add: t'_def t0_def makeImpl_def T2DCRTP_new_def ArgVec_new_def rd_def
        equalSpaced_loop.simps tolerance_def Let_def
        t2_indices_def upperIndex_def av_front_def av_back_def)
  have dx: "(1 / 2::real) = (2 - [0, 1, 3] ! nat (2 - 1)) / ([0, 1, 3] ! nat 2 - [0, 1, 3] ! nat (2 - 1))"
    by (simp add: numeral_2_eq_2)
  have dy: "(1 / 2::real) = (1 - [0, 2, 3] ! nat (1 - 1)) / ([0, 2, 3] ! nat 1 - [0, 2, 3] ! nat (1 - 1))"
    by simp
  have w: "fst (interp2d_window K (1 / 2) 2 3) > snd (interp2d_window K (1 / 2) 2 3) \<or>
     fst (interp2d_window K (1 / 2) 1 3) > snd (interp2d_window K (1 / 2) 1 3)"
    by (simp add: interp2d_window_def K_def dbl_epsilon_def)
  from kernel_empty_window_zero[OF hx hy mk lk idx dx dy w]
  have "Table2D_lookup t0 2 1 = Inr (0, t')" by simp
  then show ?thesis using mk by (simp add: lookup2_after_def K_def)
qed

text \<open>
  Claim C4, as amended.  In nearest mode, when the query is exactly equidistant from the
  two bracketing nodes \<open>args[i-1]\<close> and \<open>args[i]\<close>, the 1D lookup returns the value at
  the upper node \<open>i\<close> (the comparison of the two distances is strict).  The same holds
  per axis in \<^verbatim>\<open>T2DNearest::interp\<close>: a tie along x selects row \<open>i\<close>, a tie along y
  selects column \<open>j\<close>.
\<close>

theorem nearest_tie_upper:
  assumes "sorted_wrt (<) x" "N = int (length x)" "length y = length x" "2 \<le> N"
    "1 \<le> i" "i \<le> N - 1" "a - x ! nat (i - 1) = x ! nat i - a"
  shows "lookup_after x y N Table_nearest hist a = Inr (y ! nat i) \<and>
    (\<forall>b u v p q.
       1 \<le> p \<and> p < int (length (av_vec (t2_xargs b))) \<and>
       1 \<le> q \<and> q < int (length (av_vec (t2_yargs b))) \<longrightarrow>
       (u - av_vec (t2_xargs b) ! nat (p - 1) = av_vec (t2_xargs b) ! nat p - u \<longrightarrow>
          T2DNearest_interp b u v p q =
            rd (t2_vals b) (p * t2_ny b +
               (if v - av_vec (t2_yargs b) ! nat (q - 1) < av_vec (t2_yargs b) ! nat q - v then q - 1 else q))) \<and>
       (v - av_vec (t2_yargs b) ! nat (q - 1) = av_vec (t2_yargs b) ! nat q - v \<longrightarrow>
          T2DNearest_interp b u v p q =
            rd (t2_vals b) ((if u - av_vec (t2_xargs b) ! nat (p - 1) < av_vec (t2_xargs b) ! nat p - u
                             then p - 1 else p) * t2_ny b + q)))"
proof -
  have 1: "lookup_after x y N Table_nearest hist a = Inr (y ! nat i)"
    using nearest_tie_1d[OF assms] .
  have 2: "(u - av_vec (t2_xargs b) ! nat (p - 1) = av_vec (t2_xargs b) ! nat p - u \<longrightarrow>
          T2DNearest_interp b u v p q =
            rd (t2_vals b) (p * t2_ny b +
               (if v - av_vec (t2_yargs b) ! nat (q - 1) < av_vec (t2_yargs b) ! nat q - v then q - 1 else q))) \<and>
       (v - av_vec (t2_yargs b) ! nat (q - 1) = av_vec (t2_yargs b) ! nat q - v \<longrightarrow>
          T2DNearest_interp b u v p q =
            rd (t2_vals b) ((if u - av_vec (t2_xargs b) ! nat (p - 1) < av_vec (t2_xargs b) ! nat p - u
                             then p - 1 else p) * t2_ny b + q))"
    if h: "1 \<le> p \<and> p < int (length (av_vec (t2_xargs b))) \<and>
       1 \<le> q \<and> q < int (length (av_vec (t2_yargs b)))" for b u v p q
  proof -
    have r: "rd (av_vec (t2_xargs b)) p = Inr (av_vec (t2_xargs b) ! nat p)"
      "rd (av_vec (t2_xargs b)) (p - 1) = Inr (av_vec (t2_xargs b) ! nat (p - 1))"
      "rd (av_vec (t2_yargs b)) q = Inr (av_vec (t2_yargs b) ! nat q)"
      "rd (av_vec (t2_yargs b)) (q - 1) = Inr (av_vec (t2_yargs b) ! nat (q - 1))"
      using h by (auto simp: rd_def)
    show ?thesis unfolding T2DNearest_interp_def r bindE_Inr Let_def by simp
  qed
  show ?thesis using 1 2 by blast
qed

theorem nearest_tie_upper_witness:
  "lookup_after [0, 1, 3] [5, 6, 7] 3 Table_nearest [0] 2 = Inr ([5, 6, 7] ! nat 2)"
proof -
  have h: "sorted_wrt (<) [0, 1, 3::real]" "(3::int) = int (length [0, 1, 3::real])"
    "length [5, 6, 7::real] = length [0, 1, 3::real]" "(2::int) \<le> 3" "(1::int) \<le> 2" "(2::int) \<le> 3 - 1"
    "(2::real) - [0, 1, 3] ! nat (2 - 1) = [0, 1, 3] ! nat 2 - 2"
    by (simp_all add: numeral_2_eq_2)
  from nearest_tie_upper[OF h, of "[0]"] show ?thesis by blast
qed

text \<open>
  Claim C4 as stated fails: on the arguments \<open>[0, 2]\<close> with values \<open>[10, 20]\<close> the query
  \<open>1\<close> is equidistant from both nodes, and the nearest lookup returns \<open>20\<close>, the value
  at the upper node, not \<open>10\<close>.
\<close>

theorem nearest_tie_counterexample:
  "(1::real) - [0, 2] ! 0 = [0, 2] ! 1 - 1 \<and>
   lookup_after [0, 2] [10, 20] 2 Table_nearest [] 1 = Inr ([10, 20] ! 1) \<and>
   lookup_after [0, 2] [10, 20] 2 Table_nearest [] 1 \<noteq> Inr ([10, 20] ! 0)"
  by (simp add: lookup_after_def Table_new_def TableImpl_new_def ArgVec_new_def rd_def
        equalSpaced_loop.simps tolerance_def Let_def Table_lookup_def TableImpl_lookup_def
        upperIndex_def av_front_def av_back_def scan_up.simps scan_down.simps
        interpolate_def nearestInterpolate_def)


end
